theory Spec2Isabelle
  imports Complex_Main "HOL-Library.Word" "HOL-Library.AList" "HOL-Library.Log_Nat"
begin

section \<open>Shared types\<close>

text \<open>
  The headers that declare \<open>UUID\<close>, \<open>Address\<close>, \<open>Port\<close> and \<open>WatchHandle\<close> are not
  part of the sources at hand. A UUID is a 128-bit value, an address a host name with a
  port, and a node address the list of the interfaces of a node. \<open>size_t\<close> is a 64-bit
  unsigned machine integer (\<open>64 word\<close>).

  Record fields keep the names of the members they stand for. Where two structs share a
  member name, or a member is named like a constant of the library, the field carries
  the struct's name in front: \<open>item_id\<close>, \<open>conn_fd\<close>, \<open>conn_id\<close>,
  \<open>exp_expiration\<close>.
\<close>

type_synonym UUID = "128 word"
type_synonym Port = int
type_synonym Address = "string \<times> Port"
type_synonym NodeAddress = "Address list"
type_synonym size_t = "64 word"


section \<open>Doubles (IEEE 754 binary64)\<close>

text \<open>
  A \<open>double\<close> is a binary64 value: a finite number \<open>m * 2^e\<close> with \<open>|m| < 2^53\<close> and
  \<open>-1074 \<le> e \<le> 971\<close>, one of the two infinities, or NaN. The two zeros are one value
  here; no operation below tells them apart. An operation computes the exact result and
  rounds it to the nearest such number, a tie to the one whose \<open>m\<close> is even; a result
  that rounds to \<open>2^1024\<close> or beyond in magnitude is an infinity. Each operation of the
  source is rounded on its own (a product and the sum that follows it are not fused).

  \<open>ilog2 x\<close> is the exponent of the power of two at or below a positive \<open>x\<close>; it is
  computed from the bit length of \<open>\<lfloor>x\<rfloor>\<close>, or of \<open>\<lceil>1 / x\<rceil> - 1\<close> when \<open>x < 1\<close>.
  \<open>ulp_exp x\<close> is the exponent of the spacing of the doubles around \<open>x\<close>: 52 below
  that of \<open>x\<close>, and never below \<open>-1074\<close> (the subnormal numbers). \<open>round_even\<close>
  rounds to the nearest integer, a tie to the even one, and \<open>rnd\<close> rounds a real to the
  spacing around it.
\<close>

definition ilog2 :: "real \<Rightarrow> int" where
  "ilog2 x = (if 1 \<le> x then bitlen \<lfloor>x\<rfloor> - 1 else - bitlen (\<lceil>1 / x\<rceil> - 1))"

definition round_even :: "real \<Rightarrow> int" where
  "round_even q =
     (let f = \<lfloor>q\<rfloor>; d = q - of_int f in
      if d < 1 / 2 then f else if 1 / 2 < d then f + 1 else if even f then f else f + 1)"

definition rg :: "int \<Rightarrow> real \<Rightarrow> real" where
  "rg e x = of_int (round_even (x / 2 powi e)) * 2 powi e"

definition ulp_exp :: "real \<Rightarrow> int" where
  "ulp_exp x = max (ilog2 \<bar>x\<bar> - 52) (- 1074)"

definition rnd :: "real \<Rightarrow> real" where
  "rnd x = (if x = 0 then 0 else rg (ulp_exp x) x)"

text \<open>The values of a double, and the rounding of a real result with overflow.\<close>

datatype dval = Fin real | PInf | MInf | NaN

definition huge :: real where
  "huge = 2 ^ 1024"

definition to_dval :: "real \<Rightarrow> dval" where
  "to_dval x =
     (let y = rnd x in
      if huge \<le> y then PInf else if y \<le> - huge then MInf else Fin y)"

text \<open>
  A finite value is a double when rounding leaves it as it is and it is below \<open>2^1024\<close>
  in magnitude: these are the numbers \<open>m * 2^e\<close> above (lemma \<open>valid_Fin_form\<close>). The
  type \<open>double\<close> holds these values, the infinities and NaN, and nothing else.
\<close>

definition valid :: "dval \<Rightarrow> bool" where
  "valid d = (case d of Fin x \<Rightarrow> to_dval x = Fin x | PInf \<Rightarrow> True | MInf \<Rightarrow> True | NaN \<Rightarrow> True)"

typedef double = "{d. valid d}"
  morphisms dval_of Abs_double
  by (rule exI [of _ NaN]) (simp add: valid_def)

text \<open>
  Negation, addition, subtraction, multiplication and \<open><=\<close> on values, with the rules of
  IEEE 754 for the infinities and NaN (a comparison with NaN is false).
\<close>

fun dval_neg :: "dval \<Rightarrow> dval" where
  "dval_neg (Fin x) = Fin (- x)"
| "dval_neg PInf = MInf"
| "dval_neg MInf = PInf"
| "dval_neg NaN = NaN"

fun dval_add :: "dval \<Rightarrow> dval \<Rightarrow> dval" where
  "dval_add NaN b = NaN"
| "dval_add a NaN = NaN"
| "dval_add (Fin x) (Fin y) = to_dval (x + y)"
| "dval_add PInf MInf = NaN"
| "dval_add MInf PInf = NaN"
| "dval_add PInf b = PInf"
| "dval_add a PInf = PInf"
| "dval_add MInf b = MInf"
| "dval_add a MInf = MInf"

definition dval_sub :: "dval \<Rightarrow> dval \<Rightarrow> dval" where
  "dval_sub a b = dval_add a (dval_neg b)"

fun dval_scale :: "dval \<Rightarrow> real \<Rightarrow> dval" where
  "dval_scale a y = (if y = 0 then NaN else if 0 < y then a else dval_neg a)"

fun dval_mul :: "dval \<Rightarrow> dval \<Rightarrow> dval" where
  "dval_mul NaN b = NaN"
| "dval_mul a NaN = NaN"
| "dval_mul (Fin x) (Fin y) = to_dval (x * y)"
| "dval_mul (Fin x) b = dval_scale b x"
| "dval_mul a (Fin y) = dval_scale a y"
| "dval_mul PInf b = b"
| "dval_mul MInf b = dval_neg b"

fun dval_le :: "dval \<Rightarrow> dval \<Rightarrow> bool" where
  "dval_le NaN b = False"
| "dval_le a NaN = False"
| "dval_le (Fin x) (Fin y) = (x \<le> y)"
| "dval_le MInf b = True"
| "dval_le a PInf = True"
| "dval_le PInf b = False"
| "dval_le a MInf = False"

text \<open>
  The operations on the type. Every result of an operation on values is a value of the
  type (lemmas \<open>valid_add\<close>, \<open>valid_sub\<close>, \<open>valid_mul\<close>, \<open>valid_to_dval\<close> below), so
  \<open>double_of_dval\<close> never takes its second branch there. \<open>double_of_real x\<close> is the
  double nearest to \<open>x\<close>: a literal, or the conversion of an integer.
\<close>

definition double_of_dval :: "dval \<Rightarrow> double" where
  "double_of_dval d = Abs_double (if valid d then d else NaN)"

definition double_of_real :: "real \<Rightarrow> double" where
  "double_of_real x = double_of_dval (to_dval x)"

definition dadd :: "double \<Rightarrow> double \<Rightarrow> double" where
  "dadd a b = double_of_dval (dval_add (dval_of a) (dval_of b))"

definition dsub :: "double \<Rightarrow> double \<Rightarrow> double" where
  "dsub a b = double_of_dval (dval_sub (dval_of a) (dval_of b))"

definition dmul :: "double \<Rightarrow> double \<Rightarrow> double" where
  "dmul a b = double_of_dval (dval_mul (dval_of a) (dval_of b))"

definition dle :: "double \<Rightarrow> double \<Rightarrow> bool" where
  "dle a b = dval_le (dval_of a) (dval_of b)"

text \<open>
  The conversions. From \<open>size_t\<close> to \<open>double\<close> the value is rounded (above \<open>2^53\<close> not
  every integer is a double). From \<open>double\<close> to \<open>size_t\<close> the value is truncated towards
  zero; where the truncated value does not fit a \<open>size_t\<close>, and for an infinity or NaN,
  C++ leaves the behaviour undefined, and what the conversion then yields on the
  platform is the parameter \<open>oor\<close>.
\<close>

definition double_of_size_t :: "size_t \<Rightarrow> double" where
  "double_of_size_t n = double_of_real (real (unat n))"

definition trunc :: "real \<Rightarrow> int" where
  "trunc x = (if 0 \<le> x then \<lfloor>x\<rfloor> else \<lceil>x\<rceil>)"

definition size_t_of_double :: "(double \<Rightarrow> size_t) \<Rightarrow> double \<Rightarrow> size_t" where
  "size_t_of_double oor d =
     (case dval_of d of
        Fin x \<Rightarrow> if 0 \<le> trunc x \<and> trunc x < 2 ^ 64 then word_of_int (trunc x) else oor d
      | PInf \<Rightarrow> oor d
      | MInf \<Rightarrow> oor d
      | NaN \<Rightarrow> oor d)"


section \<open>Items (peer\_discovery.h, struct Item)\<close>

record Item =
  item_id :: UUID
  addrs :: NodeAddress
  expiration :: double

text \<open>
  \<open>Item(UUID id, NodeAddress addrs, size_t ttl, double now)\<close>. In \<open>now * 1000 + ttl\<close>
  the literal \<open>1000\<close> and \<open>ttl\<close> are converted to \<open>double\<close>, and the product and the
  sum are each rounded.
\<close>

definition Item_ctor :: "UUID \<Rightarrow> NodeAddress \<Rightarrow> size_t \<Rightarrow> double \<Rightarrow> Item" where
  "Item_ctor i a ttl now =
     \<lparr> item_id = i, addrs = a,
       expiration = dadd (dmul now (double_of_real 1000)) (double_of_size_t ttl) \<rparr>"

text \<open>
  \<open>Item(NodeItem&& item, double now)\<close> and \<open>Item(KeyItem&& item, double now)\<close>: the
  tuples \<open>(UUID, NodeAddress, size_t)\<close> and \<open>(string, UUID, NodeAddress, size_t)\<close>.
\<close>

definition Item_of_NodeItem :: "UUID \<times> NodeAddress \<times> size_t \<Rightarrow> double \<Rightarrow> Item" where
  "Item_of_NodeItem item now =
     (case item of (i, a, ttl) \<Rightarrow>
        \<lparr> item_id = i, addrs = a,
          expiration = dadd (dmul now (double_of_real 1000)) (double_of_size_t ttl) \<rparr>)"

definition Item_of_KeyItem :: "string \<times> UUID \<times> NodeAddress \<times> size_t \<Rightarrow> double \<Rightarrow> Item" where
  "Item_of_KeyItem item now =
     (case item of (k, i, a, ttl) \<Rightarrow>
        \<lparr> item_id = i, addrs = a,
          expiration = dadd (dmul now (double_of_real 1000)) (double_of_size_t ttl) \<rparr>)"

text \<open>
  \<open>size_t ttl(double now) const\<close>: 0 once the deadline has passed, otherwise the
  remaining time, converted from \<open>double\<close> to \<open>size_t\<close> by the return.
\<close>

definition Item_ttl :: "(double \<Rightarrow> size_t) \<Rightarrow> Item \<Rightarrow> double \<Rightarrow> size_t" where
  "Item_ttl oor it now =
     (if dle (expiration it) (dmul now (double_of_real 1000)) then 0
      else size_t_of_double oor (dsub (expiration it) (dmul now (double_of_real 1000))))"

text \<open>
  \<open>void setTTL(size_t ttl, double now)\<close>: the \<open>if\<close> has no braces and governs the one
  statement after it, the assignment.
\<close>

definition Item_setTTL :: "(double \<Rightarrow> size_t) \<Rightarrow> size_t \<Rightarrow> double \<Rightarrow> Item \<Rightarrow> Item" where
  "Item_setTTL oor ttl now it =
     (if ttl > Item_ttl oor it now
      then it\<lparr> expiration := dadd (dmul now (double_of_real 1000)) (double_of_size_t ttl) \<rparr>
      else it)"

text \<open>\<open>bool operator<(const Item& other) const\<close>.\<close>

definition Item_less :: "Item \<Rightarrow> Item \<Rightarrow> bool" where
  "Item_less a b = (item_id a < item_id b)"


section \<open>Fetches (peer\_discovery.h, struct Fetch and struct FetchExp)\<close>

record Fetch =
  node :: NodeAddress
  delay :: size_t

text \<open>\<open>explicit Fetch(NodeAddress node)\<close>.\<close>

definition Fetch_ctor :: "NodeAddress \<Rightarrow> Fetch" where
  "Fetch_ctor n = \<lparr> node = n, delay = 1 \<rparr>"

record FetchExp =
  key :: string
  keyId :: UUID
  exp_expiration :: double

text \<open>\<open>FetchExp(std::string key, UUID keyId, size_t delay, double now)\<close>.\<close>

definition FetchExp_ctor :: "string \<Rightarrow> UUID \<Rightarrow> size_t \<Rightarrow> double \<Rightarrow> FetchExp" where
  "FetchExp_ctor k kid d now =
     \<lparr> key = k, keyId = kid,
       exp_expiration = dadd (dmul now (double_of_real 1000)) (double_of_size_t d) \<rparr>"

text \<open>
  Modelled from the spec: the step that schedules a fetch lives in peer\_discovery.cpp,
  which is not among the sources. The spec: "record \<open>delay = 1\<close> (in ticks), and
  enqueue expiration at \<open>now + delay * period_\<close>". The \<open>Fetch\<close> entry is built by the
  constructor above; the \<open>FetchExp\<close> entry has the deadline \<open>now + delay * period_\<close>,
  with \<open>now\<close> brought to milliseconds as the constructors of the header do.
\<close>

definition scheduleFetch ::
  "string \<Rightarrow> UUID \<Rightarrow> NodeAddress \<Rightarrow> double \<Rightarrow> double \<Rightarrow> Fetch \<times> FetchExp" where
  "scheduleFetch k kid n period now =
     (let f = Fetch_ctor n in
      (f, \<lparr> key = k, keyId = kid,
            exp_expiration =
              dadd (dmul now (double_of_real 1000)) (dmul (double_of_size_t (delay f)) period) \<rparr>))"


section \<open>Watches (peer\_discovery.h, struct Watch)\<close>

text \<open>
  \<open>WatchHandle\<close> and \<open>WatchFn\<close> are declared in discovery.h, which is not among the
  sources: the handle is any linearly ordered type \<open>'h\<close>, the callback any type \<open>'f\<close>.
\<close>

record ('h, 'f) Watch =
  handle :: 'h
  watch :: 'f

text \<open>\<open>bool operator< (const Watch& other) const\<close>.\<close>

definition Watch_less :: "('h::linorder, 'f) Watch \<Rightarrow> ('h, 'f) Watch \<Rightarrow> bool" where
  "Watch_less a b = (handle a < handle b)"

text \<open>
  \<open>std::set<Watch>\<close> keeps its elements in the order of \<open>operator<\<close>, as a strictly
  increasing sequence. \<open>insert\<close> looks for the place of the new element and leaves the
  set as it is when an element equivalent to it (neither is less than the other) is
  already there.
\<close>

fun set_insert :: "('a \<Rightarrow> 'a \<Rightarrow> bool) \<Rightarrow> 'a \<Rightarrow> 'a list \<Rightarrow> 'a list" where
  "set_insert lt x [] = [x]"
| "set_insert lt x (y # ys) =
     (if lt x y then x # y # ys
      else if lt y x then y # set_insert lt x ys
      else y # ys)"

text \<open>
  \<open>std::unordered_map<std::string, std::set<Watch> > watches\<close>, and the effect of
  \<open>watches[key].insert(w)\<close>: \<open>operator[]\<close> makes an empty set for a key that has none.
\<close>

type_synonym ('h, 'f) watches = "string \<Rightarrow> ('h, 'f) Watch list option"

definition watches_insert ::
  "string \<Rightarrow> ('h::linorder, 'f) Watch \<Rightarrow> ('h, 'f) watches \<Rightarrow> ('h, 'f) watches" where
  "watches_insert k w ws =
     ws(k \<mapsto> set_insert Watch_less w (case ws k of None \<Rightarrow> [] | Some s \<Rightarrow> s))"

text \<open>The watch sets a run can build: from no watches, by insertions.\<close>

fun watches_of :: "(string \<times> ('h::linorder, 'f) Watch) list \<Rightarrow> ('h, 'f) watches" where
  "watches_of [] = Map.empty"
| "watches_of ((k, w) # kws) = watches_insert k w (watches_of kws)"


section \<open>Connections (peer\_discovery.h, struct ConnState)\<close>

record ConnState =
  conn_fd :: int
  conn_id :: size_t
  nodeId :: UUID
  version :: "32 word"
  isFetch :: bool
  pendingFetch :: "(string \<times> UUID) list"

text \<open>
  \<open>bool initialized() const { return version; }\<close>: the \<open>uint32_t\<close> is converted to
  \<open>bool\<close> by the return, zero to \<open>false\<close> and every other value to \<open>true\<close>.
\<close>

definition bool_of_uint32 :: "32 word \<Rightarrow> bool" where
  "bool_of_uint32 v = (if v = 0 then False else True)"

definition initialized :: "ConnState \<Rightarrow> bool" where
  "initialized c = bool_of_uint32 (version c)"

text \<open>\<open>void fetch(const std::string& key, const UUID& keyId)\<close>.\<close>

definition ConnState_fetch :: "string \<Rightarrow> UUID \<Rightarrow> ConnState \<Rightarrow> ConnState" where
  "ConnState_fetch k kid c =
     c\<lparr> isFetch := True, pendingFetch := pendingFetch c @ [(k, kid)] \<rparr>"


section \<open>Configuration defaults (peer\_discovery.h, the enum of PeerDiscovery)\<close>

text \<open>
  The enumerators are constant expressions of type \<open>int\<close>; the products are written as
  in the source.
\<close>

definition DefaultPort :: int where
  "DefaultPort = 18888"

definition DefaultPeriod :: int where
  "DefaultPeriod = 1000 * 60 * 1"

definition DefaultTTL :: int where
  "DefaultTTL = 1000 * 60 * 60 * 8"

definition DefaultExpThresh :: int where
  "DefaultExpThresh = 1000 * 10"

text \<open>
  \<open>void ttl(size_t ttl = DefaultTTL)\<close> and \<open>void connExpThresh(size_t ms =
  DefaultExpThresh)\<close>: a call without an argument stores the default, converted from
  \<open>int\<close> to \<open>size_t\<close>. The members \<open>ttl_\<close> and \<open>connExpThresh_\<close> are the fields
  \<open>cfg_ttl\<close> and \<open>cfg_connExpThresh\<close> (a name cannot end with an underscore here).
\<close>

record Settings =
  cfg_ttl :: size_t
  cfg_connExpThresh :: size_t

definition set_ttl :: "size_t option \<Rightarrow> Settings \<Rightarrow> Settings" where
  "set_ttl arg s =
     s\<lparr> cfg_ttl := (case arg of None \<Rightarrow> word_of_int DefaultTTL | Some t \<Rightarrow> t) \<rparr>"

definition set_connExpThresh :: "size_t option \<Rightarrow> Settings \<Rightarrow> Settings" where
  "set_connExpThresh arg s =
     s\<lparr> cfg_connExpThresh := (case arg of None \<Rightarrow> word_of_int DefaultExpThresh | Some t \<Rightarrow> t) \<rparr>"


section \<open>Sockets (socket.cpp)\<close>

subsection \<open>The operating system, errors\<close>

text \<open>
  The values of \<open>errno\<close> that the code tells apart, and every other value. The calls the
  code makes to the operating system are recorded where a property is about them; what
  a call answers (its return value and the \<open>errno\<close> it leaves) is an input of the model.
\<close>

datatype errno = EAGAIN | EWOULDBLOCK | EINPROGRESS | EOTHER nat

datatype syscall =
  Sys_accept4 int | Sys_setsockopt int | Sys_shutdown int | Sys_close int

text \<open>
  What a function can raise: the two standard exceptions thrown in socket.cpp, the
  exception of a failed \<open>SLICK_CHECK_ERRNO\<close>, the abort of a failed \<open>assert\<close>, and the
  termination of the process when an exception leaves a destructor while another one
  unwinds the stack.
\<close>

datatype exn =
  RuntimeError string
| LogicError string
| ErrnoError string errno
| AssertionFailed string
| Terminated

text \<open>
  An exception reaches the caller; a failed \<open>assert\<close> aborts the process, and so does
  a termination.
\<close>

fun is_exception :: "exn \<Rightarrow> bool" where
  "is_exception (AssertionFailed m) = False"
| "is_exception Terminated = False"
| "is_exception (RuntimeError m) = True"
| "is_exception (LogicError m) = True"
| "is_exception (ErrnoError m e) = True"

text \<open>
  Modelled from the spec: utils.h, which defines the macro \<open>SLICK_CHECK_ERRNO\<close>, is not
  among the sources. The spec has such errors "surfaced to the caller"; in socket.cpp
  the macro stands where a failed system call is reported (after \<open>getaddrinfo\<close> it is
  followed by an unconditional \<open>throw\<close> for the other error codes). It throws, with the
  message and \<open>errno\<close>, when its first argument is false.
\<close>

definition SLICK_CHECK_ERRNO :: "bool \<Rightarrow> string \<Rightarrow> errno \<Rightarrow> exn + unit" where
  "SLICK_CHECK_ERRNO pred msg e = (if pred then Inr () else Inl (ErrnoError msg e))"

text \<open>\<open>std::to_string\<close> on an \<open>int\<close>: the decimal digits, with a sign when negative.\<close>

fun nat_to_string :: "nat \<Rightarrow> string" where
  "nat_to_string n =
     (if n < 10 then [char_of (48 + n)]
      else nat_to_string (n div 10) @ [char_of (48 + n mod 10)])"

declare nat_to_string.simps [simp del]

definition to_string :: "int \<Rightarrow> string" where
  "to_string i = (if i < 0 then CHR ''-'' # nat_to_string (nat (- i)) else nat_to_string (nat i))"

subsection \<open>InterfaceIt\<close>

type_synonym sockaddr = nat

record addrinfo =
  ai_family :: int
  ai_socktype :: int
  ai_protocol :: int
  ai_addr :: sockaddr
  ai_addrlen :: nat

text \<open>\<open>EAI_SYSTEM\<close> of netdb.h (glibc).\<close>

definition EAI_SYSTEM :: int where
  "EAI_SYSTEM = - 11"

text \<open>
  \<open>InterfaceIt(const char* host, Port port)\<close>. The host is \<open>None\<close> for \<open>nullptr\<close>. What
  \<open>getaddrinfo\<close> answers is the triple of its return value, the \<open>errno\<close> it leaves and
  the list it builds; the iterator then walks that list from \<open>first\<close> along \<open>ai_next\<close>.
\<close>

definition InterfaceIt_ctor :: "string option \<Rightarrow> Port \<Rightarrow> int \<times> errno \<times> 'i list \<Rightarrow> exn + 'i list" where
  "InterfaceIt_ctor host port gai =
     (if \<not> (host = None \<or> port \<noteq> 0) then Inl (AssertionFailed ''!host || port'')
      else case gai of (ret, e, first) \<Rightarrow>
        if ret \<noteq> 0 then
          (case SLICK_CHECK_ERRNO (ret \<noteq> EAI_SYSTEM) ''InterfaceIt.getaddrinfo'' e of
             Inl x \<Rightarrow> Inl x
           | Inr _ \<Rightarrow> Inl (LogicError (''error: '' @ to_string ret)))
        else Inr first)"

subsection \<open>Socket\<close>

text \<open>The member \<open>fd_\<close> is the field \<open>fd\<close>.\<close>

record Socket =
  fd :: int
  addr :: sockaddr
  addrlen :: nat

text \<open>
  What the operating system answers for one interface of the list: the return values of
  \<open>socket\<close>, \<open>bind\<close>, \<open>listen\<close> and \<open>connect\<close>, and the \<open>errno\<close> that \<open>connect\<close> leaves.
\<close>

record answers =
  socket_ret :: int
  bind_ret :: int
  listen_ret :: int
  connect_ret :: int
  connect_errno :: errno

text \<open>
  \<open>void Socket::init()\<close>, given what \<open>setsockopt\<close> answers: the calls made and the
  exception, if any.
\<close>

definition Socket_init :: "int \<times> errno \<Rightarrow> Socket \<Rightarrow> syscall list \<times> (exn + unit)" where
  "Socket_init sso s =
     (case sso of (ret, e) \<Rightarrow>
        ([Sys_setsockopt (fd s)], SLICK_CHECK_ERRNO (ret = 0) ''Socket.setsockopt.TCP_NODELAY'' e))"

text \<open>
  The loop of \<open>Socket(const std::string& host, PortRange ports, int flags)\<close>, on the
  socket under construction: \<open>continue\<close> goes on with the next interface, \<open>break\<close>
  leaves the loop. The bytes that \<open>memcpy\<close> copies into \<open>addr\<close> play no part in what
  follows; \<open>ai_addr\<close> stands for them.
\<close>

fun Socket_connect_loop :: "(addrinfo \<times> answers) list \<Rightarrow> Socket \<Rightarrow> Socket" where
  "Socket_connect_loop [] s = s"
| "Socket_connect_loop ((ai, a) # its) s =
     (if socket_ret a < 0 then Socket_connect_loop its s
      else if connect_ret a < 0 \<and> connect_errno a \<noteq> EINPROGRESS then Socket_connect_loop its s
      else s\<lparr> fd := socket_ret a, addrlen := ai_addrlen ai, addr := ai_addr ai \<rparr>)"

text \<open>
  The constructor. Only \<open>fd_\<close> is initialised before the loop; \<open>raw\<close> is what the other
  two members hold until the loop assigns them.
\<close>

definition Socket_ctor ::
  "string \<Rightarrow> Port \<times> Port \<Rightarrow> int \<Rightarrow> sockaddr \<times> nat \<Rightarrow>
   int \<times> errno \<times> (addrinfo \<times> answers) list \<Rightarrow> int \<times> errno \<Rightarrow> exn + Socket" where
  "Socket_ctor host ports flags raw gai sso =
     (if host = [] then Inl (AssertionFailed ''!host.empty()'')
      else case InterfaceIt_ctor (Some host) (fst ports) gai of
        Inl e \<Rightarrow> Inl e
      | Inr its \<Rightarrow>
          (let s = Socket_connect_loop its \<lparr> fd = - 1, addr = fst raw, addrlen = snd raw \<rparr> in
           if fd s < 0 then Inl (RuntimeError ''ERROR: no valid interface'')
           else case snd (Socket_init sso s) of
                  Inl e \<Rightarrow> Inl e
                | Inr _ \<Rightarrow> Inr s))"

text \<open>
  \<open>Socket::~Socket()\<close>, given what \<open>shutdown\<close> and \<open>close\<close> answer: the calls made and
  the exception, if any.
\<close>

definition Socket_dtor :: "Socket \<Rightarrow> int \<times> errno \<Rightarrow> int \<times> errno \<Rightarrow> syscall list \<times> (exn + unit)" where
  "Socket_dtor s sh cl =
     (if fd s < 0 then ([], Inr ())
      else case SLICK_CHECK_ERRNO (fst sh = 0) ''Socket.shutdown'' (snd sh) of
        Inl x \<Rightarrow> ([Sys_shutdown (fd s)], Inl x)
      | Inr _ \<Rightarrow>
          ([Sys_shutdown (fd s), Sys_close (fd s)],
           SLICK_CHECK_ERRNO (fst cl = 0) ''Socket.close'' (snd cl)))"

text \<open>
  \<open>Socket Socket::accept(int fd, int flags)\<close>, given what \<open>accept4\<close> answers (its return
  value, \<open>errno\<close>, and what it leaves in \<open>addr\<close> and \<open>addrlen\<close>) and what \<open>setsockopt\<close>,
  \<open>shutdown\<close> and \<open>close\<close> would answer: the calls made, and the socket returned or the
  exception. When \<open>init()\<close> throws, the local \<open>socket\<close> is destroyed while the stack
  unwinds, with the calls of its destructor. On the other paths the local socket has a
  negative descriptor when it is destroyed (it never had one, or it was moved into the
  result), and its destructor makes no call.
\<close>

definition Socket_accept ::
  "int \<Rightarrow> int \<Rightarrow> int \<times> errno \<times> sockaddr \<times> nat \<Rightarrow> int \<times> errno \<Rightarrow> int \<times> errno \<Rightarrow> int \<times> errno \<Rightarrow>
   syscall list \<times> (exn + Socket)" where
  "Socket_accept lfd flags acc sso sh cl =
     (case acc of (ret, e, a, l) \<Rightarrow>
       (let socket = \<lparr> fd = ret, addr = a, addrlen = l \<rparr> in
        if fd socket < 0 \<and> (e = EAGAIN \<or> e = EWOULDBLOCK) then ([Sys_accept4 lfd], Inr socket)
        else case SLICK_CHECK_ERRNO (fd socket \<ge> 0) ''Socket.accept'' e of
          Inl x \<Rightarrow> ([Sys_accept4 lfd], Inl x)
        | Inr _ \<Rightarrow>
            (case Socket_init sso socket of
               (calls, Inl x) \<Rightarrow>
                 (case Socket_dtor socket sh cl of
                    (dcalls, Inl y) \<Rightarrow> (Sys_accept4 lfd # calls @ dcalls, Inl Terminated)
                  | (dcalls, Inr _) \<Rightarrow> (Sys_accept4 lfd # calls @ dcalls, Inl x))
             | (calls, Inr _) \<Rightarrow> (Sys_accept4 lfd # calls, Inr socket))))"

subsection \<open>Moves, on a store of objects\<close>

text \<open>
  A move reads one object and writes two, and the two may be the same object
  (\<open>a = std::move(a)\<close>). The objects alive are therefore kept in a store, from addresses
  to sockets, and each statement of the source reads and writes the store in turn.
\<close>

type_synonym store = "(nat \<times> Socket) list"

definition modify :: "nat \<Rightarrow> (Socket \<Rightarrow> Socket) \<Rightarrow> store \<Rightarrow> store" where
  "modify a f st = (case map_of st a of None \<Rightarrow> st | Some s \<Rightarrow> AList.update a (f s) st)"

definition fd_at :: "store \<Rightarrow> nat \<Rightarrow> int" where
  "fd_at st a = (case map_of st a of None \<Rightarrow> - 1 | Some s \<Rightarrow> fd s)"

definition addr_at :: "store \<Rightarrow> nat \<Rightarrow> sockaddr" where
  "addr_at st a = (case map_of st a of None \<Rightarrow> 0 | Some s \<Rightarrow> addr s)"

definition addrlen_at :: "store \<Rightarrow> nat \<Rightarrow> nat" where
  "addrlen_at st a = (case map_of st a of None \<Rightarrow> 0 | Some s \<Rightarrow> addrlen s)"

text \<open>
  \<open>Socket::Socket(Socket&& other)\<close>: the new object at address \<open>this\<close>, which holds no
  object yet.
\<close>

definition Socket_move_ctor :: "nat \<Rightarrow> nat \<Rightarrow> store \<Rightarrow> store" where
  "Socket_move_ctor this other st =
     (let st1 = AList.update this
                  \<lparr> fd = fd_at st other, addr = addr_at st other, addrlen = addrlen_at st other \<rparr> st;
          st2 = modify other (\<lambda>s. s\<lparr> fd := - 1 \<rparr>) st1
      in st2)"

text \<open>\<open>Socket& Socket::operator=(Socket&& other)\<close>, statement by statement.\<close>

definition Socket_move_assign :: "nat \<Rightarrow> nat \<Rightarrow> store \<Rightarrow> store" where
  "Socket_move_assign this other st =
     (let st1 = modify this (\<lambda>s. s\<lparr> fd := fd_at st other \<rparr>) st;
          st2 = modify other (\<lambda>s. s\<lparr> fd := - 1 \<rparr>) st1;
          st3 = modify this (\<lambda>s. s\<lparr> addr := addr_at st2 other \<rparr>) st2;
          st4 = modify this (\<lambda>s. s\<lparr> addrlen := addrlen_at st3 other \<rparr>) st3
      in st4)"

text \<open>
  Programs over the store: a move construction into a fresh address, a move assignment
  between two live objects, the end of an object's life (with what \<open>shutdown\<close> and
  \<open>close\<close> answer). A step is \<open>Invalid\<close> when the program uses an object that is not
  alive or constructs one where one is alive; an exception ends the run.
\<close>

datatype op =
  MoveConstruct nat nat
| MoveAssign nat nat
| Destroy nat "int \<times> errno" "int \<times> errno"

datatype status = Done store | Thrown exn | Invalid

fun step :: "op \<Rightarrow> store \<Rightarrow> syscall list \<times> status" where
  "step (MoveConstruct this other) st =
     (if map_of st this = None \<and> map_of st other \<noteq> None
      then ([], Done (Socket_move_ctor this other st)) else ([], Invalid))"
| "step (MoveAssign this other) st =
     (if map_of st this \<noteq> None \<and> map_of st other \<noteq> None
      then ([], Done (Socket_move_assign this other st)) else ([], Invalid))"
| "step (Destroy a sh cl) st =
     (case map_of st a of
        None \<Rightarrow> ([], Invalid)
      | Some s \<Rightarrow>
          (case Socket_dtor s sh cl of
             (calls, Inl x) \<Rightarrow> (calls, Thrown x)
           | (calls, Inr _) \<Rightarrow> (calls, Done (AList.delete a st))))"

fun run :: "op list \<Rightarrow> store \<Rightarrow> syscall list \<times> status" where
  "run [] st = ([], Done st)"
| "run (x # xs) st =
     (case step x st of
        (calls, Done st') \<Rightarrow> (case run xs st' of (calls', r) \<Rightarrow> (calls @ calls', r))
      | (calls, r) \<Rightarrow> (calls, r))"

text \<open>
  The stores a run starts from: no address twice, and no descriptor held by two
  objects.
\<close>

definition live_fds :: "store \<Rightarrow> int list" where
  "live_fds st = filter (\<lambda>f. 0 \<le> f) (map (\<lambda>(a, s). fd s) st)"

definition wf_store :: "store \<Rightarrow> bool" where
  "wf_store st = (distinct (map fst st) \<and> distinct (live_fds st))"

text \<open>
  For the proofs, the store as a map: the descriptors that live objects hold, and the
  property that no descriptor is held by two of them. The descriptor of a call.
\<close>

definition held :: "(nat \<rightharpoonup> Socket) \<Rightarrow> int set" where
  "held m = {f. 0 \<le> f \<and> (\<exists>a s. m a = Some s \<and> fd s = f)}"

definition inj_fds :: "(nat \<rightharpoonup> Socket) \<Rightarrow> bool" where
  "inj_fds m = (\<forall>a b s t. m a = Some s \<and> m b = Some t \<and> 0 \<le> fd s \<and> fd s = fd t \<longrightarrow> a = b)"

fun call_fd :: "syscall \<Rightarrow> int" where
  "call_fd (Sys_accept4 f) = f"
| "call_fd (Sys_setsockopt f) = f"
| "call_fd (Sys_shutdown f) = f"
| "call_fd (Sys_close f) = f"

subsection \<open>PassiveSockets\<close>

text \<open>
  The loop of \<open>PassiveSockets(PortRange ports, int flags)\<close> on the member \<open>fds_\<close>, and
  the constructor.
\<close>

fun PassiveSockets_loop :: "(addrinfo \<times> answers) list \<Rightarrow> int list \<Rightarrow> int list" where
  "PassiveSockets_loop [] fds = fds"
| "PassiveSockets_loop ((ai, a) # its) fds =
     (if socket_ret a < 0 then PassiveSockets_loop its fds
      else if bind_ret a < 0 then PassiveSockets_loop its fds
      else if listen_ret a < 0 then PassiveSockets_loop its fds
      else PassiveSockets_loop its (fds @ [socket_ret a]))"

definition PassiveSockets_ctor ::
  "Port \<times> Port \<Rightarrow> int \<Rightarrow> int \<times> errno \<times> (addrinfo \<times> answers) list \<Rightarrow> exn + int list" where
  "PassiveSockets_ctor ports flags gai =
     (case InterfaceIt_ctor None (fst ports) gai of
        Inl e \<Rightarrow> Inl e
      | Inr its \<Rightarrow>
          (let fds = PassiveSockets_loop its [] in
           if fds = [] then Inl (RuntimeError ''ERROR: no valid interface'')
           else Inr fds))"


section \<open>Doubles: rounding\<close>

lemma ilog2_bounds:
  assumes "0 < x"
  shows "2 powi ilog2 x \<le> x" "x < 2 powi (ilog2 x + 1)"
proof -
  have "2 powi ilog2 x \<le> x \<and> x < 2 powi (ilog2 x + 1)"
  proof (cases "1 \<le> x")
    case True
    define n where "n = \<lfloor>x\<rfloor>"
    have n: "0 < n" using True by (simp add: n_def)
    from bitlen_bounds [OF n] have lo: "2 ^ nat (bitlen n - 1) \<le> n" and hi: "n < 2 ^ nat (bitlen n)"
      by simp_all
    have b: "1 \<le> bitlen n" using n by (simp add: bitlen_alt_def)
    have il: "ilog2 x = bitlen n - 1" using True by (simp add: ilog2_def n_def)
    have "(2::real) powi (bitlen n - 1) = 2 ^ nat (bitlen n - 1)"
      using b by (simp add: power_int_def)
    also have "\<dots> = real_of_int (2 ^ nat (bitlen n - 1))" by simp
    also have "\<dots> \<le> real_of_int n" using lo by (simp only: of_int_le_iff)
    also have "\<dots> \<le> x" by (simp add: n_def)
    finally have 1: "2 powi ilog2 x \<le> x" by (simp add: il)
    have "n + 1 \<le> 2 ^ nat (bitlen n)" using hi by simp
    then have "real_of_int (n + 1) \<le> real_of_int (2 ^ nat (bitlen n))" by (simp only: of_int_le_iff)
    moreover have "x < real_of_int (n + 1)" by (simp add: n_def)
    moreover have "(2::real) powi (bitlen n) = 2 ^ nat (bitlen n)"
      using b by (simp add: power_int_def)
    ultimately have 2: "x < 2 powi (ilog2 x + 1)" by (simp add: il)
    from 1 2 show ?thesis ..
  next
    case False
    define m where "m = \<lceil>1 / x\<rceil> - 1"
    have y: "1 < 1 / x" using False assms by simp
    have m: "0 < m" using y by (simp add: m_def less_ceiling_iff)
    from bitlen_bounds [OF m] have lo: "2 ^ nat (bitlen m - 1) \<le> m" and hi: "m < 2 ^ nat (bitlen m)"
      by simp_all
    have b: "1 \<le> bitlen m" using m by (simp add: bitlen_alt_def)
    have il: "ilog2 x = - bitlen m" using False by (simp add: ilog2_def m_def)
    have my: "real_of_int m < 1 / x" "1 / x \<le> real_of_int (m + 1)"
      unfolding m_def by linarith+
    have "m + 1 \<le> 2 ^ nat (bitlen m)" using hi by simp
    then have "real_of_int (m + 1) \<le> real_of_int (2 ^ nat (bitlen m))"
      by (simp only: of_int_le_iff)
    with my have "1 / x \<le> 2 ^ nat (bitlen m)" by simp
    then have "1 / 2 ^ nat (bitlen m) \<le> x"
      using assms by (simp add: field_simps)
    moreover have "(2::real) powi (- bitlen m) = 1 / 2 ^ nat (bitlen m)"
      using b by (simp add: power_int_def field_simps)
    ultimately have 1: "2 powi ilog2 x \<le> x" by (simp add: il)
    have "(2::real) ^ nat (bitlen m - 1) \<le> real_of_int m"
      using lo of_int_le_iff [of "2 ^ nat (bitlen m - 1)" m, where ?'a = real] by simp
    with my(1) have "2 ^ nat (bitlen m - 1) < 1 / x" by linarith
    then have "x < 1 / 2 ^ nat (bitlen m - 1)"
      using assms by (simp add: field_simps)
    moreover have "(2::real) powi (- bitlen m + 1) = 1 / 2 ^ nat (bitlen m - 1)"
    proof -
      have "- bitlen m + 1 = - (bitlen m - 1)" by simp
      then show ?thesis using b by (simp add: power_int_def field_simps)
    qed
    ultimately have 2: "x < 2 powi (ilog2 x + 1)" by (simp add: il)
    from 1 2 show ?thesis ..
  qed
  then show "2 powi ilog2 x \<le> x" "x < 2 powi (ilog2 x + 1)" by simp_all
qed


lemma round_even_of_int [simp]: "round_even (of_int k) = k"
  by (simp add: round_even_def)

lemma round_even_floor: "\<lfloor>q\<rfloor> \<le> round_even q" "round_even q \<le> \<lfloor>q\<rfloor> + 1"
  by (simp_all add: round_even_def Let_def)

lemma round_even_ge:
  assumes "of_int k \<le> q"
  shows "k \<le> round_even q"
proof -
  from assms have "k \<le> \<lfloor>q\<rfloor>" by (simp only: le_floor_iff)
  with round_even_floor(1) [of q] show ?thesis by linarith
qed

lemma round_even_le:
  assumes "q \<le> of_int k"
  shows "round_even q \<le> k"
proof (cases "q = of_int \<lfloor>q\<rfloor>")
  case True
  then have "round_even q = \<lfloor>q\<rfloor>" by (metis round_even_of_int)
  moreover have "\<lfloor>q\<rfloor> \<le> k" using floor_mono [OF assms] by simp
  ultimately show ?thesis by simp
next
  case False
  then have "0 < q - of_int \<lfloor>q\<rfloor>" by (simp add: less_le)
  with assms have "of_int \<lfloor>q\<rfloor> < (of_int k :: real)" by linarith
  then have "\<lfloor>q\<rfloor> < k" by (simp only: of_int_less_iff)
  with round_even_floor(2) [of q] show ?thesis by linarith
qed

lemma round_even_mono:
  assumes "p \<le> q"
  shows "round_even p \<le> round_even q"
proof (cases "\<lfloor>p\<rfloor> = \<lfloor>q\<rfloor>")
  case True
  have "p - of_int \<lfloor>q\<rfloor> \<le> q - of_int \<lfloor>q\<rfloor>" using assms by simp
  then show ?thesis
    unfolding round_even_def Let_def True by (simp split: if_splits)
next
  case False
  with assms have "\<lfloor>p\<rfloor> < \<lfloor>q\<rfloor>" using floor_mono [OF assms] by linarith
  with round_even_floor(2) [of p] round_even_floor(1) [of q] show ?thesis by linarith
qed

lemma round_even_neg: "round_even (- q) = - round_even q"
proof (cases "q = of_int \<lfloor>q\<rfloor>")
  case True
  then have "round_even q = \<lfloor>q\<rfloor>" by (metis round_even_of_int)
  moreover have "- q = of_int (- \<lfloor>q\<rfloor>)" using True by simp
  then have "round_even (- q) = - \<lfloor>q\<rfloor>" by (metis round_even_of_int)
  ultimately show ?thesis by simp
next
  case False
  then have "\<lceil>q\<rceil> = \<lfloor>q\<rfloor> + 1" by (simp add: ceiling_altdef)
  then have f: "\<lfloor>- q\<rfloor> = - \<lfloor>q\<rfloor> - 1" by (simp add: ceiling_def)
  have d: "- q - of_int (- \<lfloor>q\<rfloor> - 1) = 1 - (q - of_int \<lfloor>q\<rfloor>)" by simp
  have pos: "0 < q - of_int \<lfloor>q\<rfloor>" using False by (simp add: less_le)
  show ?thesis
    unfolding round_even_def Let_def f d by (simp split: if_splits)
qed


lemma rg_mono:
  assumes "x \<le> y"
  shows "rg e x \<le> rg e y"
proof -
  have "x / 2 powi e \<le> y / 2 powi e"
    using assms by (simp add: divide_right_mono)
  then have "round_even (x / 2 powi e) \<le> round_even (y / 2 powi e)"
    by (rule round_even_mono)
  then have "(of_int (round_even (x / 2 powi e)) :: real) \<le> of_int (round_even (y / 2 powi e))"
    by (simp only: of_int_le_iff)
  then show ?thesis
    unfolding rg_def by (simp add: mult_right_mono)
qed

lemma rg_grid: "rg e (of_int k * 2 powi e) = of_int k * 2 powi e"
  by (simp add: rg_def)

lemma rg_neg: "rg e (- x) = - rg e x"
  by (simp add: rg_def round_even_neg)

lemma rg_le: "x \<le> of_int k * 2 powi e \<Longrightarrow> rg e x \<le> of_int k * 2 powi e"
  using rg_mono [of x "of_int k * 2 powi e" e] by (simp only: rg_grid)

lemma rg_ge: "of_int k * 2 powi e \<le> x \<Longrightarrow> of_int k * 2 powi e \<le> rg e x"
  using rg_mono [of "of_int k * 2 powi e" x e] by (simp only: rg_grid)

lemma grid_refine:
  assumes "e' \<le> e"
  shows "of_int k * (2::real) powi e = of_int (k * 2 ^ nat (e - e')) * 2 powi e'"
proof -
  have "(2::real) powi e = 2 powi ((e - e') + e')" by simp
  also have "\<dots> = 2 powi (e - e') * 2 powi e'"
    by (rule power_int_add) simp
  also have "(2::real) powi (e - e') = 2 ^ nat (e - e')"
    using assms by (simp add: power_int_def)
  finally show ?thesis by simp
qed

lemma powi_on_grid:
  assumes "e \<le> E"
  shows "(2::real) powi E = of_int (2 ^ nat (E - e)) * 2 powi e"
  using grid_refine [OF assms, of 1] by simp

lemma ilog2_less:
  assumes "0 < x" "x < 2 powi E"
  shows "ilog2 x < E"
proof (rule ccontr)
  assume "\<not> ilog2 x < E"
  then have "E \<le> ilog2 x" by simp
  then have "(2::real) powi E \<le> 2 powi ilog2 x"
    by (intro power_int_increasing) simp_all
  with ilog2_bounds(1) [OF assms(1)] assms(2) show False by linarith
qed

lemma ilog2_ge:
  assumes "2 powi E \<le> x"
  shows "E \<le> ilog2 x"
proof (rule ccontr)
  have pos: "0 < x" using assms zero_less_power_int [of "2::real" E] by linarith
  assume "\<not> E \<le> ilog2 x"
  then have "ilog2 x + 1 \<le> E" by simp
  then have "(2::real) powi (ilog2 x + 1) \<le> 2 powi E"
    by (intro power_int_increasing) simp_all
  with ilog2_bounds(2) [OF pos] assms show False by linarith
qed

lemma ulp_exp_le_ilog2: "- 1074 \<le> ilog2 \<bar>x\<bar> \<Longrightarrow> ulp_exp x \<le> ilog2 \<bar>x\<bar>"
  by (simp add: ulp_exp_def)

lemma rnd_neg: "rnd (- x) = - rnd x"
  by (simp add: rnd_def rg_neg ulp_exp_def)

lemma rnd_nonneg:
  assumes "0 \<le> x"
  shows "0 \<le> rnd x"
proof (cases "x = 0")
  case True
  then show ?thesis by (simp add: rnd_def)
next
  case False
  have "of_int 0 * 2 powi ulp_exp x \<le> rg (ulp_exp x) x"
    by (rule rg_ge) (use assms in simp)
  with False show ?thesis by (simp add: rnd_def)
qed

lemma rnd_mono_pos:
  assumes "0 < x" "x \<le> y"
  shows "rnd x \<le> rnd y"
proof -
  from assms have y: "0 < y" by linarith
  let ?Ex = "ilog2 x" and ?Ey = "ilog2 y"
  have ax: "\<bar>x\<bar> = x" and ay: "\<bar>y\<bar> = y" using assms y by simp_all
  have E: "?Ex \<le> ?Ey"
    by (rule ilog2_ge) (use ilog2_bounds(1) [OF assms(1)] assms(2) in linarith)
  have rx: "rnd x = rg (ulp_exp x) x" and ry: "rnd y = rg (ulp_exp y) y"
    using assms y by (simp_all add: rnd_def)
  have ee: "ulp_exp x \<le> ulp_exp y" using E by (simp add: ulp_exp_def ax ay)
  show ?thesis
  proof (cases "ulp_exp x = ulp_exp y")
    case True
    then show ?thesis unfolding rx ry using rg_mono [OF assms(2)] by simp
  next
    case False
    with ee have lt: "ulp_exp x < ulp_exp y" by simp
    then have ey: "ulp_exp y = ?Ey - 52" and Elt: "?Ex < ?Ey"
      by (simp_all add: ulp_exp_def ax ay max_def split: if_splits)
    have g1: "ulp_exp x \<le> ?Ey" using lt ey by simp
    have g2: "ulp_exp y \<le> ?Ey" using ey by simp
    have "x < 2 powi (?Ex + 1)" by (rule ilog2_bounds(2) [OF assms(1)])
    also have "(2::real) powi (?Ex + 1) \<le> 2 powi ?Ey"
      by (intro power_int_increasing) (use Elt in simp_all)
    finally have "x \<le> 2 powi ?Ey" by simp
    then have "rg (ulp_exp x) x \<le> 2 powi ?Ey"
      unfolding powi_on_grid [OF g1] by (rule rg_le)
    moreover have "2 powi ?Ey \<le> rg (ulp_exp y) y"
      unfolding powi_on_grid [OF g2] by (rule rg_ge) (use ilog2_bounds(1) [OF y] powi_on_grid [OF g2] in simp)
    ultimately show ?thesis unfolding rx ry by linarith
  qed
qed

lemma rnd_mono:
  assumes "x \<le> y"
  shows "rnd x \<le> rnd y"
proof -
  consider "0 < x" | "x \<le> 0" "0 \<le> y" | "y < 0" by linarith
  then show ?thesis
  proof cases
    case 1
    then show ?thesis using assms by (rule rnd_mono_pos)
  next
    case 2
    have "rnd x \<le> 0" using rnd_nonneg [of "- x"] 2(1) by (simp add: rnd_neg)
    with rnd_nonneg [OF 2(2)] show ?thesis by linarith
  next
    case 3
    have "rnd (- y) \<le> rnd (- x)"
      by (rule rnd_mono_pos) (use 3 assms in simp_all)
    then show ?thesis by (simp add: rnd_neg)
  qed
qed


lemma rg_finer:
  assumes "e' \<le> e"
  shows "rg e' (of_int k * 2 powi e) = of_int k * 2 powi e"
  unfolding grid_refine [OF assms] by (rule rg_grid)

lemma rnd_rep:
  assumes x: "x = of_int k * 2 powi e" and k: "\<bar>k\<bar> \<le> 2 ^ 53" and e: "- 1074 \<le> e"
  shows "rnd x = x"
proof (cases "x = 0")
  case True
  then show ?thesis by (simp add: rnd_def)
next
  case False
  have ax: "\<bar>x\<bar> = of_int \<bar>k\<bar> * 2 powi e"
    unfolding x by (simp add: abs_mult)
  have pos: "0 < \<bar>x\<bar>" using False by simp
  have "(of_int \<bar>k\<bar> :: real) \<le> of_int (2 ^ 53)"
    using k by (simp only: of_int_le_iff)
  then have "\<bar>x\<bar> \<le> 2 ^ 53 * 2 powi e"
    unfolding ax by (simp add: mult_right_mono)
  also have "(2::real) ^ 53 * 2 powi e = 2 powi (e + 53)"
    by (simp add: power_int_add)
  finally have le: "\<bar>x\<bar> \<le> 2 powi (e + 53)" .
  show ?thesis
  proof (cases "\<bar>x\<bar> = 2 powi (e + 53)")
    case False
    with le have "\<bar>x\<bar> < 2 powi (e + 53)" by simp
    from ilog2_less [OF pos this] e have "ulp_exp x \<le> e"
      by (simp add: ulp_exp_def)
    from rg_finer [OF this, of k] show ?thesis
      using \<open>x \<noteq> 0\<close> by (simp add: rnd_def x)
  next
    case True
    have "e + 53 \<le> ilog2 \<bar>x\<bar>" by (rule ilog2_ge) (simp add: True)
    moreover have "ilog2 \<bar>x\<bar> < e + 54"
      by (rule ilog2_less [OF pos]) (simp add: True power_int_strict_increasing)
    ultimately have E: "ilog2 \<bar>x\<bar> = e + 53" by simp
    have ue: "ulp_exp x = e + 1" using e by (simp add: ulp_exp_def E)
    have "of_int \<bar>k\<bar> * (2::real) powi e = 2 ^ 53 * 2 powi e"
      using True ax by (simp add: power_int_add)
    then have "(of_int \<bar>k\<bar> :: real) = of_int (2 ^ 53)" by simp
    then have "\<bar>k\<bar> = 2 ^ 53" by (simp only: of_int_eq_iff)
    then have "even \<bar>k\<bar>" by simp
    then have "even k" by simp
    then have "k = 2 * (k div 2)" by simp
    then have "(of_int k :: real) = 2 * of_int (k div 2)"
      by (metis of_int_mult of_int_numeral)
    then have x': "x = of_int (k div 2) * 2 powi (e + 1)"
      unfolding x by (simp add: power_int_add)
    have "rnd x = rg (e + 1) x" using \<open>x \<noteq> 0\<close> by (simp add: rnd_def ue)
    also have "\<dots> = x" by (subst (1 2) x') (rule rg_grid)
    finally show ?thesis .
  qed
qed

lemma rnd_int:
  assumes "\<bar>k\<bar> \<le> 2 ^ 53"
  shows "rnd (of_int k) = of_int k"
  by (rule rnd_rep [of _ k 0]) (use assms in simp_all)

lemma rnd_form: "\<exists>k e. rnd x = of_int k * 2 powi e \<and> \<bar>k\<bar> \<le> 2 ^ 53 \<and> - 1074 \<le> e"
proof (cases "x = 0")
  case True
  have "rnd x = of_int 0 * 2 powi 0" using True by (simp add: rnd_def)
  then show ?thesis by (intro exI [of _ 0]) simp
next
  case False
  define ue where "ue = ulp_exp x"
  define q where "q = x / 2 powi ue"
  define r where "r = round_even q"
  have rx: "rnd x = of_int r * 2 powi ue"
    using False by (simp add: rnd_def rg_def r_def q_def ue_def)
  have pos: "0 < \<bar>x\<bar>" using False by simp
  have ue: "- 1074 \<le> ue" "ilog2 \<bar>x\<bar> + 1 \<le> ue + 53"
    by (simp_all add: ue_def ulp_exp_def)
  have "\<bar>x\<bar> < 2 powi (ilog2 \<bar>x\<bar> + 1)" by (rule ilog2_bounds(2) [OF pos])
  also have "(2::real) powi (ilog2 \<bar>x\<bar> + 1) \<le> 2 powi (ue + 53)"
    by (intro power_int_increasing) (use ue in simp_all)
  also have "(2::real) powi (ue + 53) = 2 ^ 53 * 2 powi ue"
    by (simp add: power_int_add)
  finally have "\<bar>x\<bar> / 2 powi ue < 2 ^ 53"
    by (simp add: field_simps)
  then have "\<bar>q\<bar> < 2 ^ 53" by (simp add: q_def)
  then have b: "q \<le> of_int (2 ^ 53)" "of_int (- (2 ^ 53)) \<le> q"
    by (simp_all add: abs_less_iff)
  have "r \<le> 2 ^ 53" unfolding r_def by (rule round_even_le [OF b(1)])
  moreover have "- (2 ^ 53) \<le> r" unfolding r_def by (rule round_even_ge [OF b(2)])
  ultimately have "\<bar>r\<bar> \<le> 2 ^ 53" by simp
  with rx ue(1) show ?thesis by blast
qed

lemma rnd_idem: "rnd (rnd x) = rnd x"
proof -
  from rnd_form [of x] obtain k e
    where "rnd x = of_int k * 2 powi e" "\<bar>k\<bar> \<le> 2 ^ 53" "- 1074 \<le> e" by blast
  then show ?thesis by (rule rnd_rep)
qed

lemma to_dval_Fin: "to_dval x = Fin y \<Longrightarrow> y = rnd x \<and> \<bar>y\<bar> < huge"
  by (auto simp: to_dval_def Let_def split: if_splits)

lemma to_dval_rnd: "\<bar>rnd x\<bar> < huge \<Longrightarrow> to_dval x = Fin (rnd x)"
  by (auto simp: to_dval_def Let_def)

lemma to_dval_mono:
  assumes "x \<le> y"
  shows "dval_le (to_dval x) (to_dval y)"
  using rnd_mono [OF assms] by (auto simp: to_dval_def Let_def)

lemma valid_to_dval: "valid (to_dval x)"
proof (cases "to_dval x")
  case (Fin y)
  from to_dval_Fin [OF Fin] have y: "y = rnd x" and b: "\<bar>y\<bar> < huge" by blast+
  have r: "rnd y = y" unfolding y by (rule rnd_idem)
  from b have "\<bar>rnd y\<bar> < huge" by (simp only: r)
  from to_dval_rnd [OF this] have "to_dval y = Fin y" by (simp only: r)
  with Fin show ?thesis by (simp add: valid_def)
qed (simp_all add: valid_def)

lemma valid_Fin: "valid (Fin x) \<longleftrightarrow> rnd x = x \<and> \<bar>x\<bar> < huge"
proof
  assume "valid (Fin x)"
  then have "to_dval x = Fin x" by (simp add: valid_def)
  from to_dval_Fin [OF this] show "rnd x = x \<and> \<bar>x\<bar> < huge" by metis
next
  assume a: "rnd x = x \<and> \<bar>x\<bar> < huge"
  then have "\<bar>rnd x\<bar> < huge" by simp
  from to_dval_rnd [OF this] a show "valid (Fin x)" by (simp add: valid_def)
qed

lemma valid_Fin_form:
  "valid (Fin x) \<longleftrightarrow>
     (\<exists>k e. x = of_int k * 2 powi e \<and> \<bar>k\<bar> \<le> 2 ^ 53 \<and> - 1074 \<le> e) \<and> \<bar>x\<bar> < huge"
proof
  assume "valid (Fin x)"
  then have "rnd x = x" and b: "\<bar>x\<bar> < huge" by (simp_all add: valid_Fin)
  with rnd_form [of x] show "(\<exists>k e. x = of_int k * 2 powi e \<and> \<bar>k\<bar> \<le> 2 ^ 53 \<and> - 1074 \<le> e) \<and> \<bar>x\<bar> < huge"
    by simp
next
  assume a: "(\<exists>k e. x = of_int k * 2 powi e \<and> \<bar>k\<bar> \<le> 2 ^ 53 \<and> - 1074 \<le> e) \<and> \<bar>x\<bar> < huge"
  then obtain k e where "x = of_int k * 2 powi e" "\<bar>k\<bar> \<le> 2 ^ 53" "- 1074 \<le> e" by blast
  then have "rnd x = x" by (rule rnd_rep)
  with a show "valid (Fin x)" by (simp add: valid_Fin)
qed

lemma valid_neg: "valid d \<Longrightarrow> valid (dval_neg d)"
  by (cases d) (simp_all add: valid_Fin rnd_neg, simp_all add: valid_def)

lemma valid_add: "valid (dval_add a b)"
  by (cases a; cases b) (simp_all add: valid_to_dval, simp_all add: valid_def)

lemma valid_sub: "valid (dval_sub a b)"
  by (simp add: dval_sub_def valid_add)

lemma valid_mul: "valid (dval_mul a b)"
  by (cases a; cases b) (simp_all add: valid_to_dval, simp_all add: valid_def)

lemma valid_dval_of: "valid (dval_of a)"
  using dval_of [of a] by simp

lemma dval_of_double_of_dval: "valid d \<Longrightarrow> dval_of (double_of_dval d) = d"
  by (simp add: double_of_dval_def Abs_double_inverse)

lemma dval_of_double_of_real: "dval_of (double_of_real x) = to_dval x"
  by (simp add: double_of_real_def dval_of_double_of_dval valid_to_dval)

lemma dval_of_dadd: "dval_of (dadd a b) = dval_add (dval_of a) (dval_of b)"
  by (simp add: dadd_def dval_of_double_of_dval valid_add)

lemma dval_of_dsub: "dval_of (dsub a b) = dval_sub (dval_of a) (dval_of b)"
  by (simp add: dsub_def dval_of_double_of_dval valid_sub)

lemma dval_of_dmul: "dval_of (dmul a b) = dval_mul (dval_of a) (dval_of b)"
  by (simp add: dmul_def dval_of_double_of_dval valid_mul)

lemmas dval_of_simps =
  dval_of_double_of_real dval_of_dadd dval_of_dsub dval_of_dmul dle_def double_of_size_t_def

lemma double_eq_iff: "a = b \<longleftrightarrow> dval_of a = dval_of b"
  by (simp add: dval_of_inject)

lemma dval_le_trans: "dval_le a b \<Longrightarrow> dval_le b c \<Longrightarrow> dval_le a c"
  by (cases a; cases b; cases c) simp_all

lemma dval_le_refl: "a \<noteq> NaN \<Longrightarrow> dval_le a a"
  by (cases a) simp_all

lemma valid_Fin_to_dval: "valid (Fin x) \<Longrightarrow> to_dval x = Fin x"
  by (simp add: valid_def)

lemma huge_ge: "2 ^ 53 < huge"
  unfolding huge_def by (rule power_strict_increasing) simp_all

lemma to_dval_nat:
  assumes "n \<le> 2 ^ 53"
  shows "to_dval (real n) = Fin (real n)"
proof -
  have "int n \<le> 2 ^ 53" using assms of_nat_le_iff [of n "2 ^ 53", where ?'a = int] by simp
  then have "\<bar>int n\<bar> \<le> 2 ^ 53" by simp
  from rnd_int [OF this] have r: "rnd (real n) = real n" by simp
  have "real n \<le> 2 ^ 53" using assms of_nat_le_iff [of n "2 ^ 53", where ?'a = real] by simp
  with huge_ge have "\<bar>rnd (real n)\<bar> < huge" unfolding r by simp
  from to_dval_rnd [OF this] r show ?thesis by simp
qed


section \<open>Doubles: evaluation\<close>

lemmas eval_double =
  dval_of_simps to_dval_def rnd_def rg_def ulp_exp_def ilog2_def compute_bitlen round_even_def
  huge_def trunc_def Let_def size_t_of_double_def dval_sub_def


section \<open>Items: time to live\<close>

lemma dval_add_nonneg_ge:
  assumes v: "valid n" and le: "dval_le e n" and r: "0 \<le> r"
  shows "dval_le e (dval_add n (Fin r))"
proof (cases n)
  case (Fin n')
  have "dval_le (to_dval n') (to_dval (n' + r))"
    by (rule to_dval_mono) (use r in simp)
  moreover have "to_dval n' = Fin n'" using v Fin by (simp add: valid_def)
  ultimately have "dval_le n (dval_add n (Fin r))" using Fin by simp
  with le show ?thesis by (rule dval_le_trans)
next
  case PInf
  with le show ?thesis by (cases e) simp_all
next
  case MInf
  with le show ?thesis by (cases e) simp_all
next
  case NaN
  with le show ?thesis by (cases e) simp_all
qed

lemma dval_sub_Fin:
  assumes "dval_sub e n = Fin x"
  obtains e' n' where "e = Fin e'" "n = Fin n'" "x = rnd (e' - n')"
proof -
  from assms obtain e' n' where en: "e = Fin e'" "n = Fin n'"
    by (cases e; cases n) (simp_all add: dval_sub_def)
  with assms have "to_dval (e' - n') = Fin x" by (simp add: dval_sub_def)
  from to_dval_Fin [OF this] en that show ?thesis by blast
qed

lemma size_t_of_double_in_range:
  assumes "dval_of d = Fin x" "0 \<le> x" "x < 2 ^ 64"
  shows "int (unat (size_t_of_double oor d)) = \<lfloor>x\<rfloor>"
proof -
  have f0: "0 \<le> \<lfloor>x\<rfloor>" using assms(2) by simp
  have f1: "\<lfloor>x\<rfloor> < 2 ^ 64" using assms(3) by (simp add: floor_less_iff)
  then have "uint (word_of_int \<lfloor>x\<rfloor> :: size_t) = \<lfloor>x\<rfloor>"
    using f0 by (simp add: uint_word_of_int take_bit_int_eq_self)
  then have "int (unat (word_of_int \<lfloor>x\<rfloor> :: size_t)) = \<lfloor>x\<rfloor>" by simp
  moreover have "size_t_of_double oor d = word_of_int \<lfloor>x\<rfloor>"
    using f0 f1 assms(1,2) by (simp add: size_t_of_double_def trunc_def)
  ultimately show ?thesis by simp
qed

lemma size_t_less_real:
  assumes "int (unat w) = \<lfloor>x\<rfloor>"
  shows "w < t \<longleftrightarrow> x < real (unat t)"
proof -
  have "w < t \<longleftrightarrow> int (unat w) < int (unat t)"
    unfolding word_less_nat_alt by (simp only: of_nat_less_iff)
  also have "\<dots> \<longleftrightarrow> \<lfloor>x\<rfloor> < int (unat t)" by (simp only: assms)
  also have "\<dots> \<longleftrightarrow> x < real_of_int (int (unat t))" by (rule floor_less_iff)
  also have "real_of_int (int (unat t)) = real (unat t)" by (rule of_int_of_nat_eq)
  finally show ?thesis .
qed

lemma guard_not_below:
  assumes h: "dle (expiration it) (dmul now (double_of_real 1000))
      \<or> (\<exists>x. dval_of (dsub (expiration it) (dmul now (double_of_real 1000))) = Fin x \<and> x < 2 ^ 64)"
    and t: "dval_of (double_of_size_t t) = Fin (real (unat t))"
    and g: "Item_ttl oor it now < t"
  shows "dle (expiration it) (dadd (dmul now (double_of_real 1000)) (double_of_size_t t))"
proof -
  define e where "e = dval_of (expiration it)"
  define n where "n = dval_of (dmul now (double_of_real 1000))"
  have vn: "valid n" and ve: "valid e" unfolding n_def e_def by (rule valid_dval_of)+
  note td = t
  have goal: "dle (expiration it) (dadd (dmul now (double_of_real 1000)) (double_of_size_t t))
      \<longleftrightarrow> dval_le e (dval_add n (Fin (real (unat t))))"
    by (simp add: dle_def dval_of_dadd td e_def n_def)
  show ?thesis
  proof (cases "dval_le e n")
    case True
    show ?thesis unfolding goal
      by (rule dval_add_nonneg_ge [OF vn True]) (rule of_nat_0_le_iff)
  next
    case False
    then have nd: "\<not> dle (expiration it) (dmul now (double_of_real 1000))"
      by (simp add: dle_def e_def n_def)
    with h obtain x where x: "dval_sub e n = Fin x" "x < 2 ^ 64"
      by (auto simp: dval_of_dsub e_def n_def)
    from x(1) obtain e' n' where en: "e = Fin e'" "n = Fin n'" "x = rnd (e' - n')"
      by (rule dval_sub_Fin)
    from False en have lt: "n' < e'" by simp
    then have x0: "0 \<le> x" unfolding en(3) by (intro rnd_nonneg) simp
    have cur: "Item_ttl oor it now
        = size_t_of_double oor (dsub (expiration it) (dmul now (double_of_real 1000)))"
      using nd by (simp add: Item_ttl_def)
    have dx: "dval_of (dsub (expiration it) (dmul now (double_of_real 1000))) = Fin x"
      using x(1) by (simp add: dval_of_dsub e_def n_def)
    from size_t_of_double_in_range [OF dx x0 x(2), of oor]
    have "int (unat (Item_ttl oor it now)) = \<lfloor>x\<rfloor>" by (simp only: cur)
    from size_t_less_real [OF this, of t] g have xt: "x < real (unat t)" by simp
    have "to_dval (real (unat t)) = Fin (real (unat t))"
      using t by (simp only: double_of_size_t_def dval_of_double_of_real)
    from to_dval_Fin [OF this] have rt: "rnd (real (unat t)) = real (unat t)" by simp
    have "e' - n' < real (unat t)"
    proof (rule ccontr)
      assume "\<not> e' - n' < real (unat t)"
      then have "real (unat t) \<le> e' - n'" by simp
      from rnd_mono [OF this] have "real (unat t) \<le> x" by (simp only: rt en(3))
      with xt show False by simp
    qed
    then have "e' \<le> n' + real (unat t)" by simp
    from to_dval_mono [OF this] have "dval_le (to_dval e') (to_dval (n' + real (unat t)))" .
    moreover have "to_dval e' = Fin e'" using ve en(1) by (simp add: valid_def)
    ultimately show ?thesis unfolding goal en by simp
  qed
qed

text \<open>
  Claim C1, as the code has it. Let the conversion of the TTL \<open>t\<close> passed to \<open>double\<close>
  be exact, as it is for every \<open>t\<close> up to \<open>2^53\<close>, and let the item have expired at
  \<open>now\<close> (\<open>expiration <= now * 1000\<close>) or the remaining time
  \<open>expiration - now * 1000\<close>, as the code computes it, be a finite number below \<open>2^64\<close>.
  Then a refresh by \<open>setTTL(t, now)\<close> never decreases the stored expiration. When \<open>t\<close>
  is greater than the remaining TTL \<open>ttl(now)\<close>, the new expiration is the new deadline
  \<open>now * 1000 + t\<close>, as the code computes it, and the old expiration is not above it;
  otherwise the item is left as it is.
\<close>

theorem Item_setTTL_monotone:
  "((dle (expiration it) (dmul now (double_of_real 1000))
      \<or> (\<exists>x. dval_of (dsub (expiration it) (dmul now (double_of_real 1000))) = Fin x \<and> x < 2 ^ 64))
    \<and> dval_of (double_of_size_t t) = Fin (real (unat t)) \<longrightarrow>
     dle (expiration it) (expiration (Item_setTTL oor t now it))
   \<and> (Item_ttl oor it now < t \<longrightarrow>
        expiration (Item_setTTL oor t now it)
          = dadd (dmul now (double_of_real 1000)) (double_of_size_t t)
      \<and> dle (expiration it) (dadd (dmul now (double_of_real 1000)) (double_of_size_t t)))
   \<and> (t \<le> Item_ttl oor it now \<longrightarrow> Item_setTTL oor t now it = it))
   \<and> (unat t \<le> 2 ^ 53 \<longrightarrow> dval_of (double_of_size_t t) = Fin (real (unat t)))"
proof (intro impI conjI)
  assume a: "(dle (expiration it) (dmul now (double_of_real 1000))
      \<or> (\<exists>x. dval_of (dsub (expiration it) (dmul now (double_of_real 1000))) = Fin x \<and> x < 2 ^ 64))
    \<and> dval_of (double_of_size_t t) = Fin (real (unat t))"
  then have h: "dle (expiration it) (dmul now (double_of_real 1000))
      \<or> (\<exists>x. dval_of (dsub (expiration it) (dmul now (double_of_real 1000))) = Fin x \<and> x < 2 ^ 64)"
    and t: "dval_of (double_of_size_t t) = Fin (real (unat t))" by blast+
  have nn: "dval_of (expiration it) \<noteq> NaN"
  proof
    assume nan: "dval_of (expiration it) = NaN"
    from h show False
    proof
      assume "dle (expiration it) (dmul now (double_of_real 1000))"
      then show False by (simp add: dle_def nan)
    next
      assume "\<exists>x. dval_of (dsub (expiration it) (dmul now (double_of_real 1000))) = Fin x \<and> x < 2 ^ 64"
      then show False by (auto simp: dval_of_dsub dval_sub_def nan)
    qed
  qed
  then have refl: "dle (expiration it) (expiration it)"
    by (simp add: dle_def dval_le_refl)
  show "dle (expiration it) (expiration (Item_setTTL oor t now it))"
    using guard_not_below [OF h t, of oor] refl by (simp add: Item_setTTL_def)
  { assume g: "Item_ttl oor it now < t"
    then show "expiration (Item_setTTL oor t now it)
          = dadd (dmul now (double_of_real 1000)) (double_of_size_t t)"
      by (simp add: Item_setTTL_def)
    from guard_not_below [OF h t g]
    show "dle (expiration it) (dadd (dmul now (double_of_real 1000)) (double_of_size_t t))" . }
  { assume "t \<le> Item_ttl oor it now"
    then show "Item_setTTL oor t now it = it"
      by (simp add: Item_setTTL_def not_less [symmetric]) }
next
  assume "unat t \<le> 2 ^ 53"
  then show "dval_of (double_of_size_t t) = Fin (real (unat t))"
    unfolding double_of_size_t_def dval_of_double_of_real by (rule to_dval_nat)
qed

theorem Item_setTTL_monotone_witness:
  "dval_of (dsub (double_of_real 4000) (dmul (double_of_real 2) (double_of_real 1000))) = Fin 2000
   \<and> (2000 :: real) < 2 ^ 64
   \<and> unat (3000 :: size_t) \<le> 2 ^ 53
   \<and> dval_of (double_of_size_t 3000) = Fin (real (unat (3000 :: size_t)))
   \<and> Item_ttl (\<lambda>d. 0) \<lparr>item_id = 7, addrs = [], expiration = double_of_real 4000\<rparr>
        (double_of_real 2) = 2000
   \<and> dval_of (expiration (Item_setTTL (\<lambda>d. 0) 3000 (double_of_real 2)
        \<lparr>item_id = 7, addrs = [], expiration = double_of_real 4000\<rparr>)) = Fin 5000
   \<and> dle (double_of_real 4000) (expiration (Item_setTTL (\<lambda>d. 0) 3000 (double_of_real 2)
        \<lparr>item_id = 7, addrs = [], expiration = double_of_real 4000\<rparr>))"
proof -
  let ?it = "\<lparr>item_id = 7, addrs = [], expiration = double_of_real 4000\<rparr>"
  note inst = Item_setTTL_monotone [of ?it "double_of_real 2" 3000 "\<lambda>d. 0"]
  have h: "dval_of (dsub (expiration ?it) (dmul (double_of_real 2) (double_of_real 1000))) = Fin 2000"
    by (simp add: eval_double)
  have b: "(2000 :: real) < 2 ^ 64" by simp
  have u: "unat (3000 :: size_t) \<le> 2 ^ 53" by simp
  from inst u have t: "dval_of (double_of_size_t 3000) = Fin (real (unat (3000 :: size_t)))"
    by blast
  have c: "Item_ttl (\<lambda>d. 0) ?it (double_of_real 2) = 2000"
    by (simp add: Item_ttl_def eval_double)
  have d: "dval_of (expiration (Item_setTTL (\<lambda>d. 0) 3000 (double_of_real 2) ?it)) = Fin 5000"
    by (simp add: Item_setTTL_def c eval_double)
  from h b have "\<exists>x. dval_of (dsub (expiration ?it) (dmul (double_of_real 2) (double_of_real 1000))) = Fin x
      \<and> x < 2 ^ 64" by blast
  with t inst
  have "dle (expiration ?it) (expiration (Item_setTTL (\<lambda>d. 0) 3000 (double_of_real 2) ?it))"
    by blast
  with h b u t c d show ?thesis by simp
qed

text \<open>
  Claim C1 as stated fails in three ways. An expired item refreshed with a TTL of 0
  keeps its expiration of 0, and the larger of 0 and the new deadline is 1000. With
  the expiration \<open>2^53 + 126\<close>, \<open>now = 1/8\<close> and \<open>t = 2^53 + 1\<close> the remaining time and
  the new deadline are both rounded, the test succeeds and the expiration goes down to
  \<open>2^53 + 124\<close>. With the expiration \<open>2^100\<close> the remaining time does not fit a
  \<open>size_t\<close>; where the conversion then yields 0, a refresh with a TTL of 10 at time 0
  brings the expiration down to 10.
\<close>

theorem Item_setTTL_counterexample:
  "Item_setTTL (\<lambda>d. 0) 0 (double_of_real 1)
       \<lparr>item_id = 7, addrs = [], expiration = double_of_real 0\<rparr>
     = \<lparr>item_id = 7, addrs = [], expiration = double_of_real 0\<rparr>
   \<and> dval_of (double_of_real 0) = Fin 0
   \<and> dval_of (dadd (dmul (double_of_real 1) (double_of_real 1000)) (double_of_size_t 0)) = Fin 1000
   \<and> dval_of (expiration (Item_setTTL (\<lambda>d. 0) (2 ^ 53 + 1) (double_of_real (1 / 8))
        \<lparr>item_id = 7, addrs = [], expiration = double_of_real (2 ^ 53 + 126)\<rparr>))
     = Fin (2 ^ 53 + 124)
   \<and> dval_of (double_of_real (2 ^ 53 + 126)) = Fin (2 ^ 53 + 126)
   \<and> dval_of (expiration (Item_setTTL (\<lambda>d. 0) 10 (double_of_real 0)
        \<lparr>item_id = 7, addrs = [], expiration = double_of_real (2 ^ 100)\<rparr>)) = Fin 10
   \<and> dval_of (double_of_real (2 ^ 100)) = Fin (2 ^ 100)"
  by (simp add: Item_setTTL_def Item_ttl_def eval_double)

text \<open>
  Claim C2, as the code has it. The test guards the assignment: \<open>setTTL(t, now)\<close>
  assigns the new deadline \<open>now * 1000 + t\<close> when \<open>t\<close> is greater than the remaining
  TTL \<open>ttl(now)\<close>, and leaves the item as it is otherwise; a refresh with \<open>t = 0\<close>
  therefore never changes an item.
\<close>

theorem Item_setTTL_guarded:
  "Item_setTTL oor t now it =
     (if Item_ttl oor it now < t
      then it\<lparr>expiration := dadd (dmul now (double_of_real 1000)) (double_of_size_t t)\<rparr>
      else it)
   \<and> Item_setTTL oor 0 now it = it"
  by (simp add: Item_setTTL_def)

text \<open>
  Claim C2 as stated fails where the TTL passed is not greater than the time left: an
  item with 5000 ms left refreshed with 10 keeps its expiration of 5000, and the new
  deadline would be 10.
\<close>

theorem Item_setTTL_unconditional_counterexample:
  "Item_setTTL (\<lambda>d. 0) 10 (double_of_real 0)
       \<lparr>item_id = 7, addrs = [], expiration = double_of_real 5000\<rparr>
     = \<lparr>item_id = 7, addrs = [], expiration = double_of_real 5000\<rparr>
   \<and> dval_of (double_of_real 5000) = Fin 5000
   \<and> dval_of (dadd (dmul (double_of_real 0) (double_of_real 1000)) (double_of_size_t 10)) = Fin 10"
  by (simp add: Item_setTTL_def Item_ttl_def eval_double)

text \<open>
  Claim C4, as the code has it. An item constructed with TTL \<open>t\<close> at time \<open>now\<close> has the
  expiration \<open>now * 1000 + t\<close>, as the code computes it. When \<open>now * 1000\<close> is finite,
  the conversion of \<open>t\<close> to \<open>double\<close> is exact and the sum \<open>now * 1000 + t\<close> is exact,
  \<open>ttl(now)\<close> on the fresh item returns \<open>t\<close>. At every time \<open>now'\<close> with the expiration
  at or before \<open>now' * 1000\<close>, \<open>ttl(now')\<close> returns 0. The constructors from a
  \<open>NodeItem\<close> and from a \<open>KeyItem\<close> build the same item.
\<close>

theorem Item_ctor_ttl:
  "expiration (Item_ctor i a t now) = dadd (dmul now (double_of_real 1000)) (double_of_size_t t)
   \<and> (dval_of (dmul now (double_of_real 1000)) = Fin n
        \<and> dval_of (double_of_size_t t) = Fin (real (unat t))
        \<and> dval_of (expiration (Item_ctor i a t now)) = Fin (n + real (unat t)) \<longrightarrow>
      Item_ttl oor (Item_ctor i a t now) now = t)
   \<and> (\<forall>now'. dle (expiration (Item_ctor i a t now)) (dmul now' (double_of_real 1000)) \<longrightarrow>
         Item_ttl oor (Item_ctor i a t now) now' = 0)
   \<and> Item_of_NodeItem (i, a, t) now = Item_ctor i a t now
   \<and> Item_of_KeyItem (k, i, a, t) now = Item_ctor i a t now"
proof (intro conjI impI allI)
  show "expiration (Item_ctor i a t now) = dadd (dmul now (double_of_real 1000)) (double_of_size_t t)"
    by (simp add: Item_ctor_def)
next
  assume a: "dval_of (dmul now (double_of_real 1000)) = Fin n
        \<and> dval_of (double_of_size_t t) = Fin (real (unat t))
        \<and> dval_of (expiration (Item_ctor i a t now)) = Fin (n + real (unat t))"
  then have n: "dval_of (dmul now (double_of_real 1000)) = Fin n"
    and td: "to_dval (real (unat t)) = Fin (real (unat t))"
    and e: "dval_of (expiration (Item_ctor i a t now)) = Fin (n + real (unat t))"
    by (simp_all only: double_of_size_t_def dval_of_double_of_real)
  show "Item_ttl oor (Item_ctor i a t now) now = t"
  proof (cases "t = 0")
    case True
    then have "dle (expiration (Item_ctor i a t now)) (dmul now (double_of_real 1000))"
      unfolding dle_def e n by simp
    with True show ?thesis by (simp add: Item_ttl_def)
  next
    case False
    then have "0 < unat t" by (simp add: unat_gt_0)
    then have pos: "0 < real (unat t)" by (simp only: of_nat_0_less_iff)
    then have nd: "\<not> dle (expiration (Item_ctor i a t now)) (dmul now (double_of_real 1000))"
      unfolding dle_def e n by simp
    have c: "n + real (unat t) + - n = real (unat t)" by linarith
    have d: "dval_of (dsub (expiration (Item_ctor i a t now)) (dmul now (double_of_real 1000)))
        = Fin (real (unat t))"
      unfolding dval_of_dsub e n by (simp only: dval_sub_def dval_neg.simps dval_add.simps c td)
    have "unat t < 2 ^ 64"
      using unsigned_less [of t, where ?'a = nat] by simp
    then have "real (unat t) < real (2 ^ 64)" by (simp only: of_nat_less_iff)
    also have "real (2 ^ 64) = 2 ^ 64" by simp
    finally have lt: "real (unat t) < 2 ^ 64" .
    from size_t_of_double_in_range [OF d less_imp_le [OF pos] lt, of oor]
    have "int (unat (Item_ttl oor (Item_ctor i a t now) now)) = int (unat t)"
      using nd by (simp only: Item_ttl_def if_False floor_of_nat)
    then show ?thesis by (simp only: of_nat_eq_iff word_unat_eq_iff [symmetric])
  qed
next
  fix now' assume "dle (expiration (Item_ctor i a t now)) (dmul now' (double_of_real 1000))"
  then show "Item_ttl oor (Item_ctor i a t now) now' = 0"
    by (simp add: Item_ttl_def)
next
  show "Item_of_NodeItem (i, a, t) now = Item_ctor i a t now"
    "Item_of_KeyItem (k, i, a, t) now = Item_ctor i a t now"
    by (simp_all add: Item_of_NodeItem_def Item_of_KeyItem_def Item_ctor_def)
qed

theorem Item_ctor_ttl_witness:
  "dval_of (dmul (double_of_real 2) (double_of_real 1000)) = Fin 2000
   \<and> dval_of (double_of_size_t 5000) = Fin (real (unat (5000 :: size_t)))
   \<and> dval_of (expiration (Item_ctor 7 [(''localhost'', 18888)] 5000 (double_of_real 2)))
       = Fin (2000 + real (unat (5000 :: size_t)))
   \<and> Item_ttl (\<lambda>d. 0) (Item_ctor 7 [(''localhost'', 18888)] 5000 (double_of_real 2))
        (double_of_real 2) = 5000
   \<and> dle (expiration (Item_ctor 7 [(''localhost'', 18888)] 5000 (double_of_real 2)))
        (dmul (double_of_real 7) (double_of_real 1000))
   \<and> Item_ttl (\<lambda>d. 0) (Item_ctor 7 [(''localhost'', 18888)] 5000 (double_of_real 2))
        (double_of_real 7) = 0"
proof -
  let ?it = "Item_ctor 7 [(''localhost'', 18888)] 5000 (double_of_real 2)"
  have n: "dval_of (dmul (double_of_real 2) (double_of_real 1000)) = Fin 2000"
    by (simp add: eval_double)
  have u: "real (unat (5000 :: size_t)) = 5000" by simp
  have td: "dval_of (double_of_size_t 5000) = Fin (real (unat (5000 :: size_t)))"
    unfolding u by (simp add: eval_double)
  have e: "dval_of (expiration ?it) = Fin (2000 + real (unat (5000 :: size_t)))"
    unfolding u by (simp add: Item_ctor_def eval_double)
  have l: "dle (expiration ?it) (dmul (double_of_real 7) (double_of_real 1000))"
    by (simp add: Item_ctor_def eval_double)
  note inst = Item_ctor_ttl [of 7 "[(''localhost'', 18888)]" 5000 "double_of_real 2" 2000 "\<lambda>d. 0"]
  from inst n td e have 1: "Item_ttl (\<lambda>d. 0) ?it (double_of_real 2) = 5000" by blast
  from inst l have 2: "Item_ttl (\<lambda>d. 0) ?it (double_of_real 7) = 0" by blast
  from n td e 1 l 2 show ?thesis by (intro conjI)
qed

text \<open>
  Claim C4 as stated fails where the conversion or the sum is rounded: with
  \<open>t = 2^53 + 1\<close> at time 0 the fresh item has \<open>ttl(0) = 2^53\<close>, and with \<open>t = 5000\<close> at
  \<open>now = 4 + 2^-50\<close> it has \<open>ttl(now) = 4999\<close>.
\<close>

theorem Item_ctor_ttl_counterexample:
  "Item_ttl (\<lambda>d. 0) (Item_ctor 7 [] (2 ^ 53 + 1) (double_of_real 0)) (double_of_real 0) = 2 ^ 53
   \<and> (2 ^ 53 :: size_t) \<noteq> 2 ^ 53 + 1
   \<and> Item_ttl (\<lambda>d. 0) (Item_ctor 7 [] 5000 (double_of_real (4 + 1 / 2 ^ 50)))
        (double_of_real (4 + 1 / 2 ^ 50)) = 4999
   \<and> dval_of (double_of_real (4 + 1 / 2 ^ 50)) = Fin (4 + 1 / 2 ^ 50)"
  by (simp add: Item_ctor_def Item_ttl_def eval_double)


section \<open>Connections: the initialized flag\<close>

text \<open>
  Claim C7. A connection is reported as initialized exactly when its protocol version
  is not zero.
\<close>

theorem ConnState_initialized_iff: "initialized c \<longleftrightarrow> version c \<noteq> 0"
  by (simp add: initialized_def bool_of_uint32_def)


section \<open>Configuration defaults\<close>

text \<open>
  Claim C8. The defaults, in milliseconds where they are times: the port is 18888, the
  TTL 28800000 ms (8 hours), the period 60000 ms (60 seconds), the threshold of
  connection expiry 10000 ms (10 seconds). The products fit an \<open>int\<close>, and the setters
  called without an argument store these values.
\<close>

theorem default_constants:
  "DefaultPort = 18888
   \<and> DefaultTTL = 28800000 \<and> DefaultTTL = 8 * (60 * 60 * 1000)
   \<and> DefaultPeriod = 60000 \<and> DefaultPeriod = 60 * 1000
   \<and> DefaultExpThresh = 10000 \<and> DefaultExpThresh = 10 * 1000
   \<and> DefaultTTL < 2 ^ 31
   \<and> cfg_ttl (set_ttl None s) = 28800000
   \<and> cfg_connExpThresh (set_connExpThresh None s) = 10000"
  by (simp add: DefaultPort_def DefaultTTL_def DefaultPeriod_def DefaultExpThresh_def
      set_ttl_def set_connExpThresh_def)


section \<open>Fetches: the first deadline\<close>

lemma dval_mul_one: "valid p \<Longrightarrow> dval_mul (Fin 1) p = p"
  by (cases p) (simp_all add: valid_def)

lemma dmul_one: "dmul (double_of_size_t 1) period = period"
proof -
  have "to_dval (real (unat (1 :: size_t))) = Fin 1"
    using to_dval_nat [of 1] by simp
  then show ?thesis
    by (simp add: double_eq_iff dval_of_dmul double_of_size_t_def dval_of_double_of_real
        dval_mul_one valid_dval_of)
qed

text \<open>
  Claim C3. A fetch scheduled at time \<open>now\<close> records the node and \<open>delay = 1\<close>, and
  enqueues for the key and its identifier the deadline \<open>now * 1000\<close> plus \<open>delay\<close> times
  the period; the delay being 1, that is \<open>now * 1000\<close> plus the period. The entry is the
  one the constructor of \<open>FetchExp\<close> builds from a delay argument whose value is the
  period.
\<close>

theorem scheduleFetch_deadline:
  "node (fst (scheduleFetch k kid n period now)) = n
   \<and> delay (fst (scheduleFetch k kid n period now)) = 1
   \<and> key (snd (scheduleFetch k kid n period now)) = k
   \<and> keyId (snd (scheduleFetch k kid n period now)) = kid
   \<and> exp_expiration (snd (scheduleFetch k kid n period now))
       = dadd (dmul now (double_of_real 1000))
           (dmul (double_of_size_t (delay (fst (scheduleFetch k kid n period now)))) period)
   \<and> exp_expiration (snd (scheduleFetch k kid n period now))
       = dadd (dmul now (double_of_real 1000)) period
   \<and> (\<forall>d. double_of_size_t d = period \<longrightarrow>
         FetchExp_ctor k kid d now = snd (scheduleFetch k kid n period now))"
  by (simp add: scheduleFetch_def Fetch_ctor_def FetchExp_ctor_def dmul_one)

theorem scheduleFetch_deadline_witness:
  "double_of_size_t 60000 = double_of_real 60000
   \<and> scheduleFetch ''svc'' 9 [(''localhost'', 20001)] (double_of_real 60000) (double_of_real 5)
       = (\<lparr>node = [(''localhost'', 20001)], delay = 1\<rparr>,
          FetchExp_ctor ''svc'' 9 60000 (double_of_real 5))
   \<and> dval_of (exp_expiration (snd (scheduleFetch ''svc'' 9 [(''localhost'', 20001)]
        (double_of_real 60000) (double_of_real 5)))) = Fin 65000"
proof -
  have p: "double_of_size_t 60000 = double_of_real 60000"
    by (simp add: double_of_size_t_def)
  note inst = scheduleFetch_deadline [of "''svc''" 9 "[(''localhost'', 20001)]"
      "double_of_real 60000" "double_of_real 5"]
  from inst p have c: "FetchExp_ctor ''svc'' 9 60000 (double_of_real 5)
      = snd (scheduleFetch ''svc'' 9 [(''localhost'', 20001)] (double_of_real 60000) (double_of_real 5))"
    by blast
  have f: "fst (scheduleFetch ''svc'' 9 [(''localhost'', 20001)] (double_of_real 60000) (double_of_real 5))
      = \<lparr>node = [(''localhost'', 20001)], delay = 1\<rparr>"
    by (simp add: scheduleFetch_def Fetch_ctor_def)
  have v: "dval_of (exp_expiration (FetchExp_ctor ''svc'' 9 60000 (double_of_real 5))) = Fin 65000"
    by (simp add: FetchExp_ctor_def eval_double)
  from p c f v show ?thesis by (simp add: prod_eq_iff)
qed


section \<open>Sockets: accept\<close>

text \<open>
  Claim C9. When \<open>accept4\<close> fails with \<open>EAGAIN\<close> or \<open>EWOULDBLOCK\<close>, \<open>Socket::accept\<close>
  returns a socket with the negative descriptor, raises nothing and makes no call
  besides \<open>accept4\<close> (the initialisation, which calls \<open>setsockopt\<close>, does not run); when
  \<open>accept4\<close> fails with any other \<open>errno\<close>, \<open>Socket::accept\<close> raises an error.
\<close>

theorem Socket_accept_would_block:
  "(ret < 0 \<and> (e = EAGAIN \<or> e = EWOULDBLOCK) \<longrightarrow>
      Socket_accept lfd flags (ret, e, a, l) sso sh cl
        = ([Sys_accept4 lfd], Inr \<lparr>fd = ret, addr = a, addrlen = l\<rparr>))
   \<and> (ret < 0 \<and> e \<noteq> EAGAIN \<and> e \<noteq> EWOULDBLOCK \<longrightarrow>
      Socket_accept lfd flags (ret, e, a, l) sso sh cl
        = ([Sys_accept4 lfd], Inl (ErrnoError ''Socket.accept'' e)))"
  by (simp add: Socket_accept_def SLICK_CHECK_ERRNO_def)

theorem Socket_accept_would_block_witness:
  "(- 1 :: int) < 0
   \<and> Socket_accept 3 0 (- 1, EAGAIN, 0, 0) (0, EOTHER 0) (0, EOTHER 0) (0, EOTHER 0)
       = ([Sys_accept4 3], Inr \<lparr>fd = - 1, addr = 0, addrlen = 0\<rparr>)
   \<and> Socket_accept 3 0 (- 1, EWOULDBLOCK, 0, 0) (0, EOTHER 0) (0, EOTHER 0) (0, EOTHER 0)
       = ([Sys_accept4 3], Inr \<lparr>fd = - 1, addr = 0, addrlen = 0\<rparr>)
   \<and> EOTHER 24 \<noteq> EAGAIN \<and> EOTHER 24 \<noteq> EWOULDBLOCK
   \<and> Socket_accept 3 0 (- 1, EOTHER 24, 0, 0) (0, EOTHER 0) (0, EOTHER 0) (0, EOTHER 0)
       = ([Sys_accept4 3], Inl (ErrnoError ''Socket.accept'' (EOTHER 24)))"
  using Socket_accept_would_block [of "- 1" EAGAIN 3 0 0 0 "(0, EOTHER 0)" "(0, EOTHER 0)" "(0, EOTHER 0)"]
    Socket_accept_would_block [of "- 1" EWOULDBLOCK 3 0 0 0 "(0, EOTHER 0)" "(0, EOTHER 0)" "(0, EOTHER 0)"]
    Socket_accept_would_block [of "- 1" "EOTHER 24" 3 0 0 0 "(0, EOTHER 0)" "(0, EOTHER 0)" "(0, EOTHER 0)"]
  by simp


section \<open>Watches: one watch for a handle\<close>

lemma set_set_insert: "set (set_insert lt x ys) \<subseteq> insert x (set ys)"
  by (induction ys) auto

lemma sorted_set_insert:
  "sorted_wrt Watch_less ws \<Longrightarrow> sorted_wrt Watch_less (set_insert Watch_less w ws)"
proof (induction ws)
  case Nil
  then show ?case by simp
next
  case (Cons y ys)
  from Cons.prems have above: "\<forall>z\<in>set ys. Watch_less y z" and tail: "sorted_wrt Watch_less ys"
    by simp_all
  consider "Watch_less w y" | "\<not> Watch_less w y" "Watch_less y w"
    | "\<not> Watch_less w y" "\<not> Watch_less y w"
    by blast
  then show ?case
  proof cases
    case 1
    have "\<forall>z\<in>set ys. Watch_less w z"
      using above 1 by (auto simp: Watch_less_def)
    with 1 Cons.prems show ?thesis by simp
  next
    case 2
    have "\<forall>z\<in>set (set_insert Watch_less w ys). Watch_less y z"
      using set_set_insert [of Watch_less w ys] above 2(2) by auto
    with 2 Cons.IH [OF tail] show ?thesis by simp
  next
    case 3
    with Cons.prems show ?thesis by simp
  qed
qed

lemma set_insert_same_handle:
  "sorted_wrt Watch_less ws \<Longrightarrow> x \<in> set ws \<Longrightarrow> handle x = handle w \<Longrightarrow>
   set_insert Watch_less w ws = ws"
proof (induction ws)
  case Nil
  then show ?case by simp
next
  case (Cons y ys)
  show ?case
  proof (cases "x = y")
    case True
    with Cons.prems show ?thesis by (simp add: Watch_less_def)
  next
    case False
    with Cons.prems have x: "x \<in> set ys" and lt: "Watch_less y x" and s: "sorted_wrt Watch_less ys"
      by auto
    from lt Cons.prems(3) have "handle y < handle w" by (simp add: Watch_less_def)
    with Cons.IH [OF s x Cons.prems(3)] show ?thesis
      by (simp add: Watch_less_def)
  qed
qed

lemma sorted_distinct_handles:
  "sorted_wrt Watch_less ws \<Longrightarrow> distinct (map handle ws)"
  by (induction ws) (auto simp: Watch_less_def)

lemma watches_of_sorted:
  "watches_of kws k = Some s \<Longrightarrow> sorted_wrt Watch_less s"
proof (induction kws arbitrary: s)
  case Nil
  then show ?case by simp
next
  case (Cons kw kws)
  obtain k' w where kw: "kw = (k', w)" by (cases kw)
  show ?case
  proof (cases "k' = k")
    case False
    with Cons kw show ?thesis by (simp add: watches_insert_def)
  next
    case True
    have "sorted_wrt Watch_less (case watches_of kws k of None \<Rightarrow> [] | Some s \<Rightarrow> s)"
      using Cons.IH by (cases "watches_of kws k") simp_all
    from sorted_set_insert [OF this] Cons.prems kw True show ?thesis
      by (auto simp: watches_insert_def)
  qed
qed

text \<open>
  Claim C5. The order of watches looks at the handle only, never at the callback. The
  watch set of a key, built by insertions, holds at most one watch for a handle, and
  inserting a watch whose handle is that of a watch already in the set leaves the
  watch sets as they are. The same holds of an insertion into any set that is in the
  order of \<open>std::set\<close>.
\<close>

theorem Watch_one_per_handle:
  "(\<forall>s. watches_of kws k = Some s \<longrightarrow>
       distinct (map handle s)
     \<and> ((\<exists>x\<in>set s. handle x = handle w) \<longrightarrow>
          watches_insert k w (watches_of kws) = watches_of kws))
   \<and> (sorted_wrt Watch_less s0 \<longrightarrow>
       sorted_wrt Watch_less (set_insert Watch_less w s0)
     \<and> distinct (map handle (set_insert Watch_less w s0))
     \<and> ((\<exists>x\<in>set s0. handle x = handle w) \<longrightarrow> set_insert Watch_less w s0 = s0))
   \<and> Watch_less (a\<lparr>watch := f\<rparr>) (b\<lparr>watch := g\<rparr>) = Watch_less a b"
proof -
  have reach: "distinct (map handle s)
      \<and> ((\<exists>x\<in>set s. handle x = handle w) \<longrightarrow>
           watches_insert k w (watches_of kws) = watches_of kws)"
    if s: "watches_of kws k = Some s" for s
  proof (intro conjI impI)
    from watches_of_sorted [OF s] show "distinct (map handle s)"
      by (rule sorted_distinct_handles)
    assume "\<exists>x\<in>set s. handle x = handle w"
    then obtain x where "x \<in> set s" "handle x = handle w" by blast
    from set_insert_same_handle [OF watches_of_sorted [OF s] this]
    show "watches_insert k w (watches_of kws) = watches_of kws"
      using s by (auto simp: watches_insert_def)
  qed
  have inv: "sorted_wrt Watch_less (set_insert Watch_less w s0)
      \<and> distinct (map handle (set_insert Watch_less w s0))
      \<and> ((\<exists>x\<in>set s0. handle x = handle w) \<longrightarrow> set_insert Watch_less w s0 = s0)"
    if s0: "sorted_wrt Watch_less s0"
  proof (intro conjI impI)
    show "sorted_wrt Watch_less (set_insert Watch_less w s0)"
      by (rule sorted_set_insert [OF s0])
    then show "distinct (map handle (set_insert Watch_less w s0))"
      by (rule sorted_distinct_handles)
    assume "\<exists>x\<in>set s0. handle x = handle w"
    then obtain x where "x \<in> set s0" "handle x = handle w" by blast
    then show "set_insert Watch_less w s0 = s0"
      by (rule set_insert_same_handle [OF s0])
  qed
  have cb: "Watch_less (a\<lparr>watch := f\<rparr>) (b\<lparr>watch := g\<rparr>) = Watch_less a b"
    by (simp add: Watch_less_def)
  from reach inv cb show ?thesis by blast
qed

theorem Watch_one_per_handle_witness:
  "watches_of [(''svc'', \<lparr>handle = 7 :: nat, watch = 100 :: nat\<rparr>)] ''svc''
     = Some [\<lparr>handle = 7, watch = 100\<rparr>]
   \<and> handle \<lparr>handle = 7 :: nat, watch = 100 :: nat\<rparr> = handle \<lparr>handle = 7 :: nat, watch = 200 :: nat\<rparr>
   \<and> watches_insert ''svc'' \<lparr>handle = 7, watch = 200\<rparr>
        (watches_of [(''svc'', \<lparr>handle = 7 :: nat, watch = 100 :: nat\<rparr>)]) ''svc''
     = Some [\<lparr>handle = 7, watch = 100\<rparr>]"
  using Watch_one_per_handle [of "[(''svc'', \<lparr>handle = 7 :: nat, watch = 100 :: nat\<rparr>)]"
      "''svc''" "\<lparr>handle = 7, watch = 200\<rparr>"]
  by (simp add: watches_insert_def Watch_less_def)


section \<open>Sockets: failures at construction\<close>

lemma InterfaceIt_ctor_fails:
  "ret \<noteq> 0 \<Longrightarrow> host = None \<or> port \<noteq> 0 \<Longrightarrow>
   \<exists>x. InterfaceIt_ctor host port (ret, e, its) = Inl x \<and> is_exception x"
  by (auto simp: InterfaceIt_ctor_def SLICK_CHECK_ERRNO_def)

lemma InterfaceIt_ctor_succeeds:
  "host = None \<or> port \<noteq> 0 \<Longrightarrow> InterfaceIt_ctor host port (0, e, its) = Inr its"
  by (auto simp: InterfaceIt_ctor_def)

lemma PassiveSockets_loop_all_fail:
  "\<forall>x\<in>set its. socket_ret (snd x) < 0 \<or> bind_ret (snd x) < 0 \<or> listen_ret (snd x) < 0 \<Longrightarrow>
   PassiveSockets_loop its fds = fds"
  by (induction its fds rule: PassiveSockets_loop.induct) auto

lemma Socket_connect_loop_all_fail:
  "\<forall>x\<in>set its. socket_ret (snd x) < 0
       \<or> (connect_ret (snd x) < 0 \<and> connect_errno (snd x) \<noteq> EINPROGRESS) \<Longrightarrow>
   Socket_connect_loop its s = s"
  by (induction its s rule: Socket_connect_loop.induct) auto

lemma PassiveSockets_ctor_throws:
  assumes "\<forall>x\<in>set its. socket_ret (snd x) < 0 \<or> bind_ret (snd x) < 0 \<or> listen_ret (snd x) < 0"
  shows "\<exists>x. PassiveSockets_ctor ports flags (ret, e, its) = Inl x \<and> is_exception x"
    and "PassiveSockets_ctor ports flags (0, e, its) = Inl (RuntimeError ''ERROR: no valid interface'')"
proof -
  show "PassiveSockets_ctor ports flags (0, e, its) = Inl (RuntimeError ''ERROR: no valid interface'')"
    by (simp add: PassiveSockets_ctor_def InterfaceIt_ctor_succeeds
        PassiveSockets_loop_all_fail [OF assms])
  show "\<exists>x. PassiveSockets_ctor ports flags (ret, e, its) = Inl x \<and> is_exception x"
  proof (cases "ret = 0")
    case True
    then show ?thesis
      by (simp add: PassiveSockets_ctor_def InterfaceIt_ctor_succeeds
          PassiveSockets_loop_all_fail [OF assms])
  next
    case False
    from InterfaceIt_ctor_fails [OF this, of None "fst ports" e its]
    show ?thesis by (auto simp: PassiveSockets_ctor_def)
  qed
qed

lemma Socket_ctor_throws:
  assumes "\<forall>x\<in>set its. socket_ret (snd x) < 0
       \<or> (connect_ret (snd x) < 0 \<and> connect_errno (snd x) \<noteq> EINPROGRESS)"
    and "host \<noteq> []" "fst ports \<noteq> 0"
  shows "\<exists>x. Socket_ctor host ports flags raw (ret, e, its) sso = Inl x \<and> is_exception x"
    and "Socket_ctor host ports flags raw (0, e, its) sso = Inl (RuntimeError ''ERROR: no valid interface'')"
proof -
  show "Socket_ctor host ports flags raw (0, e, its) sso = Inl (RuntimeError ''ERROR: no valid interface'')"
    using assms(2,3)
    by (simp add: Socket_ctor_def InterfaceIt_ctor_succeeds
        Socket_connect_loop_all_fail [OF assms(1)])
  show "\<exists>x. Socket_ctor host ports flags raw (ret, e, its) sso = Inl x \<and> is_exception x"
  proof (cases "ret = 0")
    case True
    then show ?thesis
      using assms(2,3)
      by (simp add: Socket_ctor_def InterfaceIt_ctor_succeeds
          Socket_connect_loop_all_fail [OF assms(1)])
  next
    case False
    from InterfaceIt_ctor_fails [OF this, of "Some host" "fst ports" e its] assms(2,3)
    show ?thesis by (auto simp: Socket_ctor_def)
  qed
qed

lemma PassiveSockets_ctor_object:
  "PassiveSockets_ctor ports flags gai = Inr fds \<Longrightarrow> fds \<noteq> []"
  by (auto simp: PassiveSockets_ctor_def Let_def split: sum.splits if_splits)

text \<open>
  Claim C6. If on every interface \<open>socket\<close>, \<open>bind\<close> or \<open>listen\<close> fails, the constructor
  of \<open>PassiveSockets\<close> throws: the runtime error "no valid interface" when
  \<open>getaddrinfo\<close> succeeded, the error of \<open>getaddrinfo\<close> otherwise. If on every
  interface \<open>socket\<close> fails or \<open>connect\<close> fails with an \<open>errno\<close> other than
  \<open>EINPROGRESS\<close>, the connecting constructor of \<open>Socket\<close> (called, as its assertions
  ask, with a host and a port) throws in the same way. Neither constructor returns an
  object without a socket: the descriptors of the \<open>PassiveSockets\<close> returned are not
  empty, and the descriptor of the \<open>Socket\<close> returned is not negative.
\<close>

theorem constructors_throw:
  "((\<forall>x\<in>set its. socket_ret (snd x) < 0 \<or> bind_ret (snd x) < 0 \<or> listen_ret (snd x) < 0) \<longrightarrow>
      (\<exists>x. PassiveSockets_ctor ports flags (ret, e, its) = Inl x \<and> is_exception x)
    \<and> PassiveSockets_ctor ports flags (0, e, its) = Inl (RuntimeError ''ERROR: no valid interface''))
   \<and> (host \<noteq> [] \<and> fst ports \<noteq> 0
      \<and> (\<forall>x\<in>set its. socket_ret (snd x) < 0
            \<or> (connect_ret (snd x) < 0 \<and> connect_errno (snd x) \<noteq> EINPROGRESS)) \<longrightarrow>
      (\<exists>x. Socket_ctor host ports flags raw (ret, e, its) sso = Inl x \<and> is_exception x)
    \<and> Socket_ctor host ports flags raw (0, e, its) sso = Inl (RuntimeError ''ERROR: no valid interface''))
   \<and> (\<forall>fds. PassiveSockets_ctor ports flags (ret, e, its) = Inr fds \<longrightarrow> fds \<noteq> [])
   \<and> (\<forall>s. Socket_ctor host ports flags raw (ret, e, its) sso = Inr s \<longrightarrow> 0 \<le> fd s)"
proof (intro conjI impI allI)
  assume a: "\<forall>x\<in>set its. socket_ret (snd x) < 0 \<or> bind_ret (snd x) < 0 \<or> listen_ret (snd x) < 0"
  show "\<exists>x. PassiveSockets_ctor ports flags (ret, e, its) = Inl x \<and> is_exception x"
    by (rule PassiveSockets_ctor_throws(1) [OF a])
  show "PassiveSockets_ctor ports flags (0, e, its) = Inl (RuntimeError ''ERROR: no valid interface'')"
    by (rule PassiveSockets_ctor_throws(2) [OF a])
next
  assume a: "host \<noteq> [] \<and> fst ports \<noteq> 0
      \<and> (\<forall>x\<in>set its. socket_ret (snd x) < 0
            \<or> (connect_ret (snd x) < 0 \<and> connect_errno (snd x) \<noteq> EINPROGRESS))"
  then have h: "host \<noteq> []" and p: "fst ports \<noteq> 0"
    and f: "\<forall>x\<in>set its. socket_ret (snd x) < 0
            \<or> (connect_ret (snd x) < 0 \<and> connect_errno (snd x) \<noteq> EINPROGRESS)"
    by simp_all
  show "\<exists>x. Socket_ctor host ports flags raw (ret, e, its) sso = Inl x \<and> is_exception x"
    by (rule Socket_ctor_throws(1) [OF f h p])
  show "Socket_ctor host ports flags raw (0, e, its) sso = Inl (RuntimeError ''ERROR: no valid interface'')"
    by (rule Socket_ctor_throws(2) [OF f h p])
next
  fix fds assume "PassiveSockets_ctor ports flags (ret, e, its) = Inr fds"
  then show "fds \<noteq> []" by (rule PassiveSockets_ctor_object)
next
  fix s assume "Socket_ctor host ports flags raw (ret, e, its) sso = Inr s"
  then show "0 \<le> fd s"
    by (auto simp: Socket_ctor_def Let_def split: sum.splits if_splits)
qed

theorem constructors_throw_witness:
  "bind_ret \<lparr>socket_ret = 5, bind_ret = - 1, listen_ret = 0, connect_ret = - 1,
                 connect_errno = EOTHER 111\<rparr> < 0
   \<and> connect_ret \<lparr>socket_ret = 5, bind_ret = - 1, listen_ret = 0, connect_ret = - 1,
                 connect_errno = EOTHER 111\<rparr> < 0
   \<and> connect_errno \<lparr>socket_ret = 5, bind_ret = - 1, listen_ret = 0, connect_ret = - 1,
                 connect_errno = EOTHER 111\<rparr> \<noteq> EINPROGRESS
   \<and> socket_ret \<lparr>socket_ret = - 1, bind_ret = 0, listen_ret = 0, connect_ret = 0,
                 connect_errno = EOTHER 0\<rparr> < 0
   \<and> PassiveSockets_ctor (18888, 18888) 0 (0, EOTHER 0,
        [(\<lparr>ai_family = 2, ai_socktype = 1, ai_protocol = 6, ai_addr = 0, ai_addrlen = 16\<rparr>,
          \<lparr>socket_ret = 5, bind_ret = - 1, listen_ret = 0, connect_ret = - 1,
           connect_errno = EOTHER 111\<rparr>),
         (\<lparr>ai_family = 10, ai_socktype = 1, ai_protocol = 6, ai_addr = 1, ai_addrlen = 28\<rparr>,
          \<lparr>socket_ret = - 1, bind_ret = 0, listen_ret = 0, connect_ret = 0,
           connect_errno = EOTHER 0\<rparr>)])
       = Inl (RuntimeError ''ERROR: no valid interface'')
   \<and> Socket_ctor ''localhost'' (18888, 18888) 0 (0, 0) (0, EOTHER 0,
        [(\<lparr>ai_family = 2, ai_socktype = 1, ai_protocol = 6, ai_addr = 0, ai_addrlen = 16\<rparr>,
          \<lparr>socket_ret = 5, bind_ret = - 1, listen_ret = 0, connect_ret = - 1,
           connect_errno = EOTHER 111\<rparr>),
         (\<lparr>ai_family = 10, ai_socktype = 1, ai_protocol = 6, ai_addr = 1, ai_addrlen = 28\<rparr>,
          \<lparr>socket_ret = - 1, bind_ret = 0, listen_ret = 0, connect_ret = 0,
           connect_errno = EOTHER 0\<rparr>)]) (0, EOTHER 0)
       = Inl (RuntimeError ''ERROR: no valid interface'')"
  using constructors_throw [of
      "[(\<lparr>ai_family = 2, ai_socktype = 1, ai_protocol = 6, ai_addr = 0, ai_addrlen = 16\<rparr>,
          \<lparr>socket_ret = 5, bind_ret = - 1, listen_ret = 0, connect_ret = - 1,
           connect_errno = EOTHER 111\<rparr>),
         (\<lparr>ai_family = 10, ai_socktype = 1, ai_protocol = 6, ai_addr = 1, ai_addrlen = 28\<rparr>,
          \<lparr>socket_ret = - 1, bind_ret = 0, listen_ret = 0, connect_ret = 0,
           connect_errno = EOTHER 0\<rparr>)]"
      "(18888, 18888)" 0 0 "EOTHER 0" "''localhost''" "(0, 0)" "(0, EOTHER 0)"]
  by simp


section \<open>Sockets: moves and the destructor\<close>

lemma map_of_modify:
  "map_of (modify a f st) = (case map_of st a of None \<Rightarrow> map_of st | Some s \<Rightarrow> (map_of st)(a \<mapsto> f s))"
  by (simp add: modify_def AList.update_conv' split: option.splits)

lemma map_of_move_ctor:
  assumes "map_of st this = None" "map_of st other = Some s"
  shows "map_of (Socket_move_ctor this other st)
    = (map_of st)(this \<mapsto> \<lparr>fd = fd s, addr = addr s, addrlen = addrlen s\<rparr>, other \<mapsto> s\<lparr>fd := - 1\<rparr>)"
proof -
  from assms have ne: "this \<noteq> other" by auto
  show ?thesis
    using assms ne
    by (simp add: Socket_move_ctor_def Let_def map_of_modify AList.update_conv'
        fd_at_def addr_at_def addrlen_at_def)
qed

lemma map_of_move_assign:
  assumes "map_of st this = Some t" "map_of st other = Some s"
  shows "map_of (Socket_move_assign this other st)
    = (if this = other then (map_of st)(this \<mapsto> t\<lparr>fd := - 1\<rparr>)
       else (map_of st)(this \<mapsto> \<lparr>fd = fd s, addr = addr s, addrlen = addrlen s\<rparr>,
                        other \<mapsto> s\<lparr>fd := - 1\<rparr>))"
  using assms
  by (auto simp: Socket_move_assign_def Let_def map_of_modify fd_at_def addr_at_def addrlen_at_def
      fun_eq_iff)


lemma move_ctor_inv:
  assumes "map_of st this = None" "map_of st other = Some s" "inj_fds (map_of st)"
  shows "inj_fds (map_of (Socket_move_ctor this other st))"
    and "held (map_of (Socket_move_ctor this other st)) \<subseteq> held (map_of st)"
proof -
  note m = map_of_move_ctor [OF assms(1,2)]
  from assms(1,2) have ne: "this \<noteq> other" by auto
  show "inj_fds (map_of (Socket_move_ctor this other st))"
    unfolding m using assms ne
    by (auto simp: inj_fds_def split: if_splits)
  show "held (map_of (Socket_move_ctor this other st)) \<subseteq> held (map_of st)"
    unfolding m using assms ne
    by (auto simp: held_def split: if_splits)
qed

lemma move_assign_inv:
  assumes "map_of st this = Some t" "map_of st other = Some s" "inj_fds (map_of st)"
  shows "inj_fds (map_of (Socket_move_assign this other st))"
    and "held (map_of (Socket_move_assign this other st)) \<subseteq> held (map_of st)"
proof -
  note m = map_of_move_assign [OF assms(1,2)]
  show "inj_fds (map_of (Socket_move_assign this other st))"
    unfolding m using assms
    by (auto simp: inj_fds_def split: if_splits)
  show "held (map_of (Socket_move_assign this other st)) \<subseteq> held (map_of st)"
    unfolding m using assms
    by (auto simp: held_def split: if_splits)
qed

lemma Socket_dtor_calls:
  "Socket_dtor s sh cl = (calls, r) \<Longrightarrow>
   (calls = [] \<or> calls = [Sys_shutdown (fd s)] \<or> calls = [Sys_shutdown (fd s), Sys_close (fd s)])
   \<and> (calls \<noteq> [] \<longrightarrow> 0 \<le> fd s)"
  by (auto simp: Socket_dtor_def SLICK_CHECK_ERRNO_def split: if_splits)

lemma delete_inv:
  assumes "map_of st a = Some s" "inj_fds (map_of st)"
  shows "inj_fds (map_of (AList.delete a st))"
    and "held (map_of (AList.delete a st)) \<subseteq> held (map_of st) - {fd s}"
proof -
  show "inj_fds (map_of (AList.delete a st))"
    using assms by (auto simp: inj_fds_def AList.delete_conv' split: if_splits)
  show "held (map_of (AList.delete a st)) \<subseteq> held (map_of st) - {fd s}"
    using assms by (auto simp: held_def inj_fds_def AList.delete_conv' split: if_splits)
qed

lemma step_inv:
  assumes "inj_fds (map_of st)" "step x st = (calls, r)"
  shows "distinct calls" "call_fd ` set calls \<subseteq> held (map_of st)"
    "\<forall>c\<in>set calls. \<exists>f. c = Sys_shutdown f \<or> c = Sys_close f"
    "\<And>st'. r = Done st' \<Longrightarrow>
       inj_fds (map_of st') \<and> held (map_of st') \<subseteq> held (map_of st) - call_fd ` set calls"
proof -
  have "distinct calls \<and> call_fd ` set calls \<subseteq> held (map_of st)
    \<and> (\<forall>c\<in>set calls. \<exists>f. c = Sys_shutdown f \<or> c = Sys_close f)
    \<and> (\<forall>st'. r = Done st' \<longrightarrow>
       inj_fds (map_of st') \<and> held (map_of st') \<subseteq> held (map_of st) - call_fd ` set calls)"
  proof (cases x)
    case (MoveConstruct this other)
    with assms show ?thesis
      by (auto split: if_splits dest: move_ctor_inv)
  next
    case (MoveAssign this other)
    with assms show ?thesis
      by (auto split: if_splits dest: move_assign_inv)
  next
    case (Destroy a sh cl)
    show ?thesis
    proof (cases "map_of st a")
      case None
      with assms Destroy show ?thesis by auto
    next
      case (Some s)
      obtain cs res where d: "Socket_dtor s sh cl = (cs, res)" by (cases "Socket_dtor s sh cl")
      with assms(2) Destroy Some have calls: "calls = cs"
        and r: "r = (case res of Inl x \<Rightarrow> Thrown x | Inr _ \<Rightarrow> Done (AList.delete a st))"
        by (auto split: sum.splits)
      note c = Socket_dtor_calls [OF d]
      have h: "calls \<noteq> [] \<Longrightarrow> fd s \<in> held (map_of st)"
        using c Some calls by (auto simp: held_def)
      have sub: "call_fd ` set calls \<subseteq> {fd s}"
        using c calls by auto
      note del = delete_inv [OF Some assms(1)]
      have "distinct calls" using c calls by auto
      moreover have "call_fd ` set calls \<subseteq> held (map_of st)"
        using h sub by (cases "calls = []") auto
      moreover have "\<forall>c\<in>set calls. \<exists>f. c = Sys_shutdown f \<or> c = Sys_close f"
        using c calls by auto
      moreover have "\<forall>st'. r = Done st' \<longrightarrow>
         inj_fds (map_of st') \<and> held (map_of st') \<subseteq> held (map_of st) - call_fd ` set calls"
        using r del sub by (auto split: sum.splits)
      ultimately show ?thesis by blast
    qed
  qed
  then show "distinct calls" "call_fd ` set calls \<subseteq> held (map_of st)"
    "\<forall>c\<in>set calls. \<exists>f. c = Sys_shutdown f \<or> c = Sys_close f"
    "\<And>st'. r = Done st' \<Longrightarrow>
       inj_fds (map_of st') \<and> held (map_of st') \<subseteq> held (map_of st) - call_fd ` set calls"
    by blast+
qed

lemma run_inv:
  "inj_fds (map_of st) \<Longrightarrow> run xs st = (calls, r) \<Longrightarrow>
   distinct calls \<and> call_fd ` set calls \<subseteq> held (map_of st)
   \<and> (\<forall>c\<in>set calls. \<exists>f. c = Sys_shutdown f \<or> c = Sys_close f)"
proof (induction xs arbitrary: st calls r)
  case Nil
  then show ?case by simp
next
  case (Cons x xs)
  obtain c1 r1 where s: "step x st = (c1, r1)" by (cases "step x st")
  note si = step_inv [OF Cons.prems(1) s]
  show ?case
  proof (cases r1)
    case (Done st')
    obtain c2 r2 where rn: "run xs st' = (c2, r2)" by (cases "run xs st'")
    from si(4) [OF Done] have inj': "inj_fds (map_of st')"
      and sub: "held (map_of st') \<subseteq> held (map_of st) - call_fd ` set c1" by simp_all
    note ih = Cons.IH [OF inj' rn]
    from Cons.prems(2) s Done rn have calls: "calls = c1 @ c2" by simp
    have disj: "set c1 \<inter> set c2 = {}"
    proof (rule ccontr)
      assume "set c1 \<inter> set c2 \<noteq> {}"
      then obtain c where "c \<in> set c1" "c \<in> set c2" by blast
      then have "call_fd c \<in> call_fd ` set c1" "call_fd c \<in> held (map_of st')"
        using ih by auto
      with sub show False by auto
    qed
    have "call_fd ` set c2 \<subseteq> held (map_of st)" using ih sub by blast
    with si ih disj show ?thesis
      unfolding calls by auto
  next
    case (Thrown e)
    with Cons.prems(2) s si show ?thesis by simp
  next
    case Invalid
    with Cons.prems(2) s si show ?thesis by simp
  qed
qed

lemma map_of_in_live_fds:
  "map_of st a = Some s \<Longrightarrow> 0 \<le> fd s \<Longrightarrow> fd s \<in> set (live_fds st)"
  by (auto simp: live_fds_def dest!: map_of_SomeD intro!: image_eqI [where x = "(a, s)"])

lemma held_live_fds: "held (map_of st) \<subseteq> set (live_fds st)"
  by (auto simp: held_def dest: map_of_in_live_fds)

lemma wf_store_inj_fds: "wf_store st \<Longrightarrow> inj_fds (map_of st)"
proof (induction st)
  case Nil
  then show ?case by (simp add: inj_fds_def)
next
  case (Cons p st)
  obtain a s where p: "p = (a, s)" by (cases p)
  from Cons.prems have wf: "wf_store st"
    by (auto simp: wf_store_def live_fds_def p split: if_splits)
  note ih = Cons.IH [OF wf]
  from Cons.prems have fresh: "a \<notin> fst ` set st" and
    nf: "0 \<le> fd s \<Longrightarrow> fd s \<notin> set (live_fds st)"
    by (auto simp: wf_store_def live_fds_def p split: if_splits)
  show ?case
    unfolding inj_fds_def
  proof (intro allI impI)
    fix b c t u
    assume h: "map_of (p # st) b = Some t \<and> map_of (p # st) c = Some u \<and> 0 \<le> fd t \<and> fd t = fd u"
    show "b = c"
    proof (cases "b = a"; cases "c = a")
      assume "b = a" "c = a" then show ?thesis by simp
    next
      assume b: "b = a" and c: "c \<noteq> a"
      with h p have "t = s" "map_of st c = Some u" by auto
      with h nf map_of_in_live_fds [of st c u] show ?thesis by auto
    next
      assume b: "b \<noteq> a" and c: "c = a"
      with h p have "u = s" "map_of st b = Some t" by auto
      with h nf map_of_in_live_fds [of st b t] show ?thesis by auto
    next
      assume "b \<noteq> a" "c \<noteq> a"
      with h p ih show ?thesis by (auto simp: inj_fds_def)
    qed
  qed
qed


lemma fd_at_move_ctor:
  assumes "map_of st this = None" "map_of st other \<noteq> None"
  shows "fd_at (Socket_move_ctor this other st) other = - 1"
    and "fd_at (Socket_move_ctor this other st) this = fd_at st other"
proof -
  from assms obtain s where s: "map_of st other = Some s" by auto
  with assms have ne: "this \<noteq> other" by auto
  show "fd_at (Socket_move_ctor this other st) other = - 1"
    "fd_at (Socket_move_ctor this other st) this = fd_at st other"
    using ne s by (simp_all add: fd_at_def map_of_move_ctor [OF assms(1) s])
qed

lemma fd_at_move_assign:
  assumes "map_of st this \<noteq> None" "map_of st other \<noteq> None"
  shows "fd_at (Socket_move_assign this other st) other = - 1"
    and "this \<noteq> other \<Longrightarrow> fd_at (Socket_move_assign this other st) this = fd_at st other"
proof -
  from assms obtain t s where ts: "map_of st this = Some t" "map_of st other = Some s" by auto
  show "fd_at (Socket_move_assign this other st) other = - 1"
    using ts by (simp add: fd_at_def map_of_move_assign [OF ts])
  show "fd_at (Socket_move_assign this other st) this = fd_at st other" if "this \<noteq> other"
    using ts that by (simp add: fd_at_def map_of_move_assign [OF ts])
qed

text \<open>
  Claim C10. From a store in which no descriptor is held by two objects, whatever the
  program of move constructions, move assignments and destructions, no call is made
  twice (each descriptor is shut down at most once and closed at most once), and the
  calls are \<open>shutdown\<close> and \<open>close\<close> on descriptors that the store held at the start.
  After a move construction and after a move assignment the descriptor of the
  moved-from socket is \<open>-1\<close>, the target holding the descriptor moved; the destructor
  of a socket with a negative descriptor makes no call.
\<close>

theorem moves_close_at_most_once:
  "(wf_store st \<longrightarrow>
      distinct (fst (run xs st))
    \<and> (\<forall>c\<in>set (fst (run xs st)). \<exists>f\<in>set (live_fds st). c = Sys_shutdown f \<or> c = Sys_close f))
   \<and> (map_of st this = None \<and> map_of st other \<noteq> None \<longrightarrow>
        fd_at (Socket_move_ctor this other st) other = - 1
      \<and> fd_at (Socket_move_ctor this other st) this = fd_at st other)
   \<and> (map_of st this \<noteq> None \<and> map_of st other \<noteq> None \<longrightarrow>
        fd_at (Socket_move_assign this other st) other = - 1
      \<and> (this \<noteq> other \<longrightarrow> fd_at (Socket_move_assign this other st) this = fd_at st other))
   \<and> (fd s < 0 \<longrightarrow> Socket_dtor s sh cl = ([], Inr ()))"
proof (intro conjI impI)
  assume wf: "wf_store st"
  obtain calls r where rn: "run xs st = (calls, r)" by (cases "run xs st")
  note inv = run_inv [OF wf_store_inj_fds [OF wf] rn]
  from inv show "distinct (fst (run xs st))" by (simp add: rn)
  show "\<forall>c\<in>set (fst (run xs st)). \<exists>f\<in>set (live_fds st). c = Sys_shutdown f \<or> c = Sys_close f"
  proof
    fix c assume c: "c \<in> set (fst (run xs st))"
    with rn have cc: "c \<in> set calls" by simp
    with inv obtain f where f: "c = Sys_shutdown f \<or> c = Sys_close f" by blast
    from cc inv have "call_fd c \<in> held (map_of st)" by blast
    with held_live_fds [of st] f have "f \<in> set (live_fds st)" by auto
    with f show "\<exists>f\<in>set (live_fds st). c = Sys_shutdown f \<or> c = Sys_close f" by blast
  qed
next
  assume "map_of st this = None \<and> map_of st other \<noteq> None"
  then show "fd_at (Socket_move_ctor this other st) other = - 1"
    "fd_at (Socket_move_ctor this other st) this = fd_at st other"
    by (simp_all add: fd_at_move_ctor)
next
  assume a: "map_of st this \<noteq> None \<and> map_of st other \<noteq> None"
  then show "fd_at (Socket_move_assign this other st) other = - 1"
    by (simp add: fd_at_move_assign)
  assume "this \<noteq> other"
  with a show "fd_at (Socket_move_assign this other st) this = fd_at st other"
    by (simp add: fd_at_move_assign)
next
  assume "fd s < 0"
  then show "Socket_dtor s sh cl = ([], Inr ())" by (simp add: Socket_dtor_def)
qed

lemma run_example:
  "run [MoveConstruct 30 10, MoveAssign 20 30, MoveAssign 30 30,
        Destroy 10 (0, EOTHER 0) (0, EOTHER 0), Destroy 20 (0, EOTHER 0) (0, EOTHER 0),
        Destroy 30 (0, EOTHER 0) (0, EOTHER 0)]
       [(10, \<lparr>fd = 5, addr = 0, addrlen = 16\<rparr>), (20, \<lparr>fd = 6, addr = 7, addrlen = 16\<rparr>)]
   = ([Sys_shutdown 5, Sys_close 5], Done [])"
  by (simp add: Socket_move_ctor_def Socket_move_assign_def modify_def fd_at_def addr_at_def
      addrlen_at_def Socket_dtor_def SLICK_CHECK_ERRNO_def AList.delete_eq)

theorem moves_close_at_most_once_witness:
  "wf_store [(10, \<lparr>fd = 5, addr = 0, addrlen = 16\<rparr>), (20, \<lparr>fd = 6, addr = 7, addrlen = 16\<rparr>)]
   \<and> fst (run [MoveConstruct 30 10, MoveAssign 20 30, MoveAssign 30 30,
        Destroy 10 (0, EOTHER 0) (0, EOTHER 0), Destroy 20 (0, EOTHER 0) (0, EOTHER 0),
        Destroy 30 (0, EOTHER 0) (0, EOTHER 0)]
       [(10, \<lparr>fd = 5, addr = 0, addrlen = 16\<rparr>), (20, \<lparr>fd = 6, addr = 7, addrlen = 16\<rparr>)])
     = [Sys_shutdown 5, Sys_close 5]
   \<and> distinct (fst (run [MoveConstruct 30 10, MoveAssign 20 30, MoveAssign 30 30,
        Destroy 10 (0, EOTHER 0) (0, EOTHER 0), Destroy 20 (0, EOTHER 0) (0, EOTHER 0),
        Destroy 30 (0, EOTHER 0) (0, EOTHER 0)]
       [(10, \<lparr>fd = 5, addr = 0, addrlen = 16\<rparr>), (20, \<lparr>fd = 6, addr = 7, addrlen = 16\<rparr>)]))
   \<and> fd_at (Socket_move_ctor 30 10
        [(10, \<lparr>fd = 5, addr = 0, addrlen = 16\<rparr>), (20, \<lparr>fd = 6, addr = 7, addrlen = 16\<rparr>)]) 10 = - 1
   \<and> fd_at (Socket_move_assign 20 10
        [(10, \<lparr>fd = 5, addr = 0, addrlen = 16\<rparr>), (20, \<lparr>fd = 6, addr = 7, addrlen = 16\<rparr>)]) 10 = - 1
   \<and> Socket_dtor \<lparr>fd = - 1, addr = 0, addrlen = 16\<rparr> (0, EOTHER 0) (0, EOTHER 0) = ([], Inr ())"
proof -
  let ?st = "[(10 :: nat, \<lparr>fd = 5, addr = 0, addrlen = 16\<rparr>),
      (20, \<lparr>fd = 6, addr = 7, addrlen = 16\<rparr>)]"
  let ?xs = "[MoveConstruct 30 10, MoveAssign 20 30, MoveAssign 30 30,
        Destroy 10 (0, EOTHER 0) (0, EOTHER 0), Destroy 20 (0, EOTHER 0) (0, EOTHER 0),
        Destroy 30 (0, EOTHER 0) (0, EOTHER 0)]"
  have wf: "wf_store ?st"
    by (simp add: wf_store_def live_fds_def)
  have live: "map_of ?st 30 = None \<and> map_of ?st 10 \<noteq> None"
    "map_of ?st 20 \<noteq> None \<and> map_of ?st 10 \<noteq> None"
    by simp_all
  have neg: "fd \<lparr>fd = - 1, addr = 0, addrlen = 16\<rparr> < 0" by simp
  note a = moves_close_at_most_once [of ?st ?xs 30 10 "\<lparr>fd = - 1, addr = 0, addrlen = 16\<rparr>"
      "(0, EOTHER 0)" "(0, EOTHER 0)"]
  note b = moves_close_at_most_once [of ?st ?xs 20 10 "\<lparr>fd = - 1, addr = 0, addrlen = 16\<rparr>"
      "(0, EOTHER 0)" "(0, EOTHER 0)"]
  from a wf have 1: "distinct (fst (run ?xs ?st))" by blast
  from a live(1) have 2: "fd_at (Socket_move_ctor 30 10 ?st) 10 = - 1" by blast
  from b live(2) have 3: "fd_at (Socket_move_assign 20 10 ?st) 10 = - 1" by blast
  from a neg have 4: "Socket_dtor \<lparr>fd = - 1, addr = 0, addrlen = 16\<rparr> (0, EOTHER 0) (0, EOTHER 0)
      = ([], Inr ())" by blast
  have 5: "fst (run ?xs ?st) = [Sys_shutdown 5, Sys_close 5]"
    by (simp only: run_example fst_conv)
  from wf 1 2 3 4 5 show ?thesis by (intro conjI)
qed


end
